theory Spec2Isabelle
  imports Complex_Main
begin

section \<open>JavaScript values and string helpers\<close>

text \<open>
  The server keeps question options in a \<open>jsonb\<close> column and hands them around as
  \<open>unknown\<close>. A JSON value is modelled by the datatype below; numbers are rationals
  (an idealisation of IEEE doubles), objects are association lists with unique keys.
\<close>

datatype json =
    JNull
  | JBool bool
  | JNum rat
  | JStr string
  | JArr "json list"
  | JObj "(string \<times> json) list"

text \<open>
  \<open>String.prototype.trim\<close> and \<open>toLowerCase\<close> on ASCII text. Characters of
  \<open>string\<close> are bytes, so the two functions are exact on ASCII input only: the
  JavaScript functions also strip U+00A0 and the other Unicode white space, and
  lower non-ASCII letters.
\<close>

definition is_ws :: "char \<Rightarrow> bool" where
  "is_ws c = (c \<in> set [CHR 0x20, CHR 0x09, CHR 0x0A, CHR 0x0B, CHR 0x0C, CHR 0x0D])"

definition trim :: "string \<Rightarrow> string" where
  "trim s = rev (dropWhile is_ws (rev (dropWhile is_ws s)))"

definition lower_char :: "char \<Rightarrow> char" where
  "lower_char c =
     (case map_of (zip ''ABCDEFGHIJKLMNOPQRSTUVWXYZ'' ''abcdefghijklmnopqrstuvwxyz'') c of
        Some d \<Rightarrow> d
      | None \<Rightarrow> c)"

definition toLowerCase :: "string \<Rightarrow> string" where
  "toLowerCase s = map lower_char s"

text \<open>
  \<open>Math.round\<close> rounds half up; it is applied here to an exact rational, where
  the source rounds an IEEE double, so the two can differ by one when the exact
  value lies on a half (45 * 7 / 10 is 31 in the source, 32 here). \<open>xs[i]\<close> is
  \<open>undefined\<close> out of range.
\<close>

definition Math_round :: "rat \<Rightarrow> int" where
  "Math_round x = \<lfloor>x + 1 / 2\<rfloor>"

definition nth_opt :: "'a list \<Rightarrow> int \<Rightarrow> 'a option" where
  "nth_opt xs i = (if 0 \<le> i \<and> i < int (length xs) then Some (xs ! nat i) else None)"

section \<open>Insertion-ordered maps\<close>

text \<open>
  A JavaScript \<open>Map\<close> iterates in insertion order, and \<open>set\<close> on a present key keeps
  the key's position. It is modelled as an association list.
\<close>

type_synonym ('k, 'v) jsmap = "('k \<times> 'v) list"

definition map_has :: "('k, 'v) jsmap \<Rightarrow> 'k \<Rightarrow> bool" where
  "map_has m k = (k \<in> set (map fst m))"

definition map_get :: "('k, 'v) jsmap \<Rightarrow> 'k \<Rightarrow> 'v option" where
  "map_get m k = map_of m k"

fun map_set :: "('k, 'v) jsmap \<Rightarrow> 'k \<Rightarrow> 'v \<Rightarrow> ('k, 'v) jsmap" where
  "map_set [] k v = [(k, v)]"
| "map_set ((k', v') # m) k v = (if k' = k then (k, v) # m else (k', v') # map_set m k v)"

definition map_values :: "('k, 'v) jsmap \<Rightarrow> 'v list" where
  "map_values m = map snd m"

definition map_size :: "('k, 'v) jsmap \<Rightarrow> nat" where
  "map_size m = length m"

section \<open>Live quiz session state\<close>

datatype live_status = Waiting | Question | Results | Ended

record LiveAnswer =
  questionIndex :: int
  answer :: string
  correct :: bool
  time :: rat

record LiveParticipant =
  userId :: string
  name :: string
  score :: int
  answers :: "LiveAnswer list"

record LiveQuestion =
  q_id :: string
  question_text :: string
  question_type :: string
  options :: json
  correct_answer :: string
  marks :: int
  difficulty :: string

record LeaderboardEntry =
  rank :: nat
  lb_name :: string
  lb_score :: int

record QuestionPayload =
  p_index :: int
  p_total :: nat
  p_question_text :: string
  p_question_type :: string
  p_options :: json
  p_marks :: int
  p_difficulty :: string
  p_time_limit :: int

datatype sse_event =
    Connected live_status
  | Participant_joined string string nat
  | Quiz_ended "LeaderboardEntry list"
  | Question_event QuestionPayload
  | Answer_update nat nat

text \<open>
  An open SSE response: \<open>broken\<close> says that \<open>res.write\<close> throws, \<open>received\<close> is
  what has been written to it so far.
\<close>

record sse_client =
  client_id :: nat
  broken :: bool
  received :: "sse_event list"

record LiveSession =
  quizId :: string
  teacherId :: string
  status :: live_status
  currentQuestionIndex :: int
  questionStartedAt :: int
  questionTimeLimit :: rat
  participants :: "(string, LiveParticipant) jsmap"
  sseClients :: "sse_client list"
  questions :: "LiveQuestion list"

text \<open>Rows of the tables \<open>quiz_attempts\<close> and \<open>student_answers\<close>.\<close>

record quizAttempt =
  a_id :: nat
  a_quiz_id :: string
  a_student_id :: string
  a_total_marks :: int
  a_score :: int
  a_percentage :: rat
  a_status :: string
  a_submitted_at :: int

record studentAnswer =
  sa_attempt_id :: nat
  sa_question_id :: string
  sa_answer_text :: string
  sa_is_correct :: bool
  sa_marks_awarded :: int
  sa_ai_feedback :: string

text \<open>
  The process state the live routes touch: the registry \<open>liveSessions\<close>, the two
  tables, the supply of fresh ids behind \<open>genId\<close> (random in the source, a counter
  here), and the join codes whose removal \<open>setTimeout\<close> has scheduled.
\<close>

record world =
  liveSessions :: "string \<rightharpoonup> LiveSession"
  quizAttempts :: "quizAttempt list"
  studentAnswers :: "studentAnswer list"
  next_id :: nat
  timers :: "string list"

record JwtPayload =
  jwt_userId :: string
  jwt_role :: string

datatype error =
    Unauthorized
  | Insufficient_permissions
  | Session_not_found
  | Not_the_session_host
  | Session_has_ended
  | No_active_question
  | Not_a_participant
  | Already_answered
  | Quiz_not_found
  | Quiz_not_published
  | Quiz_has_no_questions
  | TypeError

fun http_status :: "error \<Rightarrow> nat" where
  "http_status Unauthorized = 401"
| "http_status Insufficient_permissions = 403"
| "http_status Session_not_found = 404"
| "http_status Not_the_session_host = 403"
| "http_status Session_has_ended = 400"
| "http_status No_active_question = 400"
| "http_status Not_a_participant = 400"
| "http_status Already_answered = 400"
| "http_status Quiz_not_found = 404"
| "http_status Quiz_not_published = 400"
| "http_status Quiz_has_no_questions = 400"
| "http_status TypeError = 500"

datatype reply =
    Error error
  | Started string nat int
  | Joined live_status nat nat
  | Ended_reply "LeaderboardEntry list"
  | Question_reply int nat
  | Answered bool int

definition roleMiddleware :: "string list \<Rightarrow> JwtPayload \<Rightarrow> bool" where
  "roleMiddleware allowedRoles u = (jwt_role u \<in> set allowedRoles)"

definition broadcastSSE :: "LiveSession \<Rightarrow> sse_event \<Rightarrow> LiveSession" where
  "broadcastSSE session ev =
     session\<lparr>sseClients :=
       map (\<lambda>c. c\<lparr>received := received c @ [ev]\<rparr>)
           (filter (\<lambda>c. \<not> broken c) (sseClients session))\<rparr>"

text \<open>
  \<open>Array.from(participants.values()).sort((a, b) => b.score - a.score)\<close>:
  \<open>Array.prototype.sort\<close> is a stable sort, here by descending score; \<open>sort_key\<close>
  is the stable insertion sort of the list library. The \<open>map\<close> adds the ranks.
\<close>

definition sort_by_score :: "LiveParticipant list \<Rightarrow> LiveParticipant list" where
  "sort_by_score ps = sort_key (\<lambda>p. - score p) ps"

definition leaderboard :: "LiveSession \<Rightarrow> LeaderboardEntry list" where
  "leaderboard session =
     map (\<lambda>(i, p). \<lparr>rank = i + 1, lb_name = name p, lb_score = score p\<rparr>)
         (enumerate 0 (sort_by_score (map_values (participants session))))"

section \<open>The live routes\<close>

text \<open>
  Every route is a function from the request and the process state to the reply and
  the new state. A request carries the verified token (\<open>None\<close> when
  \<open>authMiddleware\<close> rejects it); \<open>Date.now()\<close> is the argument \<open>now\<close>. Handlers
  are taken to run one at a time, and database inserts to succeed.
\<close>

record quiz =
  quiz_title :: string
  quiz_status :: string
  time_limit_minutes :: "int option"

text \<open>
  \<open>POST /api/quizzes/:id/start-live\<close>. The \<open>do ... while\<close> loop draws random join
  codes until one is free; \<open>draws\<close> is the sequence of codes drawn, and the result is
  \<open>None\<close> when every one of them is taken.
\<close>

definition start_live ::
  "string \<Rightarrow> JwtPayload option \<Rightarrow> quiz option \<Rightarrow> LiveQuestion list \<Rightarrow> string list \<Rightarrow> world
     \<Rightarrow> (reply \<times> world) option" where
  "start_live quiz_id user quiz_row qs draws w =
     (case user of
        None \<Rightarrow> Some (Error Unauthorized, w)
      | Some u \<Rightarrow>
          if \<not> roleMiddleware [''teacher'', ''admin''] u then Some (Error Insufficient_permissions, w)
          else (case quiz_row of
             None \<Rightarrow> Some (Error Quiz_not_found, w)
           | Some qz \<Rightarrow>
               if quiz_status qz \<noteq> ''published'' then Some (Error Quiz_not_published, w)
               else if length qs = 0 then Some (Error Quiz_has_no_questions, w)
               else (case find (\<lambda>c. liveSessions w c = None) draws of
                  None \<Rightarrow> None
                | Some joinCode \<Rightarrow>
                    let limit = (case time_limit_minutes qz of
                                   None \<Rightarrow> 30
                                 | Some m \<Rightarrow> if m = 0 then 30 else m);
                        session = \<lparr>quizId = quiz_id,
                                   teacherId = jwt_userId u,
                                   status = Waiting,
                                   currentQuestionIndex = - 1,
                                   questionStartedAt = 0,
                                   questionTimeLimit = of_int limit * 60 / of_nat (length qs),
                                   participants = [],
                                   sseClients = [],
                                   questions = qs\<rparr>
                    in Some (Started joinCode (length qs) (Math_round (questionTimeLimit session)),
                             w\<lparr>liveSessions := (liveSessions w)(joinCode \<mapsto> session)\<rparr>))))"

text \<open>\<open>GET /api/live/:code/stream\<close> and the \<open>close\<close> callback it registers.\<close>

definition live_stream :: "string \<Rightarrow> JwtPayload option \<Rightarrow> nat \<Rightarrow> bool \<Rightarrow> world \<Rightarrow> reply option \<times> world" where
  "live_stream code user cid brk w =
     (case user of
        None \<Rightarrow> (Some (Error Unauthorized), w)
      | Some u \<Rightarrow>
          (case liveSessions w code of
             None \<Rightarrow> (Some (Error Session_not_found), w)
           | Some session \<Rightarrow>
               let res = \<lparr>client_id = cid, broken = brk, received = [Connected (status session)]\<rparr>
               in (None, w\<lparr>liveSessions := (liveSessions w)
                      (code \<mapsto> session\<lparr>sseClients := sseClients session @ [res]\<rparr>)\<rparr>)))"

definition stream_close :: "string \<Rightarrow> nat \<Rightarrow> world \<Rightarrow> world" where
  "stream_close code cid w =
     (case liveSessions w code of
        None \<Rightarrow> w
      | Some session \<Rightarrow>
          w\<lparr>liveSessions := (liveSessions w)
            (code \<mapsto> session\<lparr>sseClients := filter (\<lambda>c. client_id c \<noteq> cid) (sseClients session)\<rparr>)\<rparr>)"

text \<open>
  \<open>POST /api/live/:code/join\<close>. \<open>user_name\<close> is the name found in the \<open>users\<close>
  table, if any.
\<close>

definition live_join :: "string \<Rightarrow> JwtPayload option \<Rightarrow> string option \<Rightarrow> world \<Rightarrow> reply \<times> world" where
  "live_join code user user_name w =
     (case user of
        None \<Rightarrow> (Error Unauthorized, w)
      | Some u \<Rightarrow>
          (case liveSessions w code of
             None \<Rightarrow> (Error Session_not_found, w)
           | Some session \<Rightarrow>
               if status session = Ended then (Error Session_has_ended, w)
               else
                 let nm = (case user_name of None \<Rightarrow> ''Unknown'' | Some n \<Rightarrow> n);
                     session' =
                       (if \<not> map_has (participants session) (jwt_userId u) then
                          let s1 = session\<lparr>participants :=
                                     map_set (participants session) (jwt_userId u)
                                       \<lparr>userId = jwt_userId u, name = nm, score = 0, answers = []\<rparr>\<rparr>
                          in broadcastSSE s1
                               (Participant_joined (jwt_userId u) nm (map_size (participants s1)))
                        else session)
                 in (Joined (status session') (map_size (participants session'))
                            (length (questions session')),
                     w\<lparr>liveSessions := (liveSessions w)(code \<mapsto> session')\<rparr>)))"

text \<open>
  The loop that saves the attempts, inside the \<open>ended\<close> branch of \<open>next\<close>.
  Every insert is taken to succeed: the source has no \<open>try\<close> around them, so an
  insert that fails (a participant without a row in \<open>users\<close>, say) throws out of
  the loop and out of the route, after the rows written so far. The percentage is
  computed on exact rationals (see \<open>Math_round\<close>) and stands for the number
  before \<open>String(pct)\<close>.
\<close>

definition answer_rows :: "LiveSession \<Rightarrow> nat \<Rightarrow> LiveAnswer list \<Rightarrow> studentAnswer list" where
  "answer_rows session attemptId anss =
     concat (map (\<lambda>ans.
       case nth_opt (questions session) (questionIndex ans) of
         None \<Rightarrow> []
       | Some q \<Rightarrow>
           [\<lparr>sa_attempt_id = attemptId,
             sa_question_id = q_id q,
             sa_answer_text = answer ans,
             sa_is_correct = correct ans,
             sa_marks_awarded = (if correct ans then marks q else 0),
             sa_ai_feedback = (if correct ans then ''Correct!''
                               else ''Incorrect. The correct answer is: '' @ correct_answer q)\<rparr>]) anss)"

definition attempt_row :: "LiveSession \<Rightarrow> int \<Rightarrow> nat \<Rightarrow> string \<Rightarrow> LiveParticipant \<Rightarrow> quizAttempt" where
  "attempt_row session now attemptId uid participant =
     (let totalMarks = sum_list (map marks (questions session));
          pct = (if totalMarks > 0
                 then of_int (Math_round (of_int (score participant) / of_int totalMarks * 100 * 100)) / 100
                 else 0)
      in \<lparr>a_id = attemptId,
          a_quiz_id = quizId session,
          a_student_id = uid,
          a_total_marks = totalMarks,
          a_score = score participant,
          a_percentage = pct,
          a_status = ''evaluated'',
          a_submitted_at = now\<rparr>)"

fun save_attempts :: "LiveSession \<Rightarrow> int \<Rightarrow> (string \<times> LiveParticipant) list \<Rightarrow> world \<Rightarrow> world" where
  "save_attempts session now [] w = w"
| "save_attempts session now ((uid, participant) # ps) w =
     (let attemptId = next_id w;
          w1 = w\<lparr>next_id := next_id w + 1\<rparr>;
          w2 = w1\<lparr>quizAttempts := quizAttempts w1 @ [attempt_row session now attemptId uid participant]\<rparr>;
          w3 = w2\<lparr>studentAnswers := studentAnswers w2 @ answer_rows session attemptId (answers participant)\<rparr>
      in save_attempts session now ps w3)"

text \<open>
  \<open>POST /api/live/:code/next\<close>. When the incremented index is negative the source
  reads a field of \<open>undefined\<close> after it has updated the session: the reply is the
  uncaught \<open>TypeError\<close>, the updates stay.
\<close>

definition live_next :: "string \<Rightarrow> JwtPayload option \<Rightarrow> int \<Rightarrow> world \<Rightarrow> reply \<times> world" where
  "live_next code user now w =
     (case user of
        None \<Rightarrow> (Error Unauthorized, w)
      | Some u \<Rightarrow>
          if \<not> roleMiddleware [''teacher'', ''admin''] u then (Error Insufficient_permissions, w)
          else (case liveSessions w code of
             None \<Rightarrow> (Error Session_not_found, w)
           | Some session \<Rightarrow>
               if teacherId session \<noteq> jwt_userId u then (Error Not_the_session_host, w)
               else
                 let s1 = session\<lparr>currentQuestionIndex := currentQuestionIndex session + 1\<rparr>
                 in if currentQuestionIndex s1 \<ge> int (length (questions s1)) then
                      let s2 = s1\<lparr>status := Ended\<rparr>;
                          lb = leaderboard s2;
                          s3 = broadcastSSE s2 (Quiz_ended lb);
                          w1 = w\<lparr>liveSessions := (liveSessions w)(code \<mapsto> s3)\<rparr>
                      in (Ended_reply lb, save_attempts s3 now (participants s3) w1)
                    else
                      let s2 = s1\<lparr>status := Question, questionStartedAt := now\<rparr>
                      in (case nth_opt (questions s2) (currentQuestionIndex s2) of
                            None \<Rightarrow>
                              (Error TypeError, w\<lparr>liveSessions := (liveSessions w)(code \<mapsto> s2)\<rparr>)
                          | Some q \<Rightarrow>
                              let s3 = broadcastSSE s2 (Question_event
                                         \<lparr>p_index = currentQuestionIndex s2,
                                           p_total = length (questions s2),
                                           p_question_text = question_text q,
                                           p_question_type = question_type q,
                                           p_options = options q,
                                           p_marks = marks q,
                                           p_difficulty = difficulty q,
                                           p_time_limit = Math_round (questionTimeLimit s2)\<rparr>)
                              in (Question_reply (currentQuestionIndex s3) (length (questions s3)),
                                  w\<lparr>liveSessions := (liveSessions w)(code \<mapsto> s3)\<rparr>))))"

text \<open>
  \<open>POST /api/live/:code/answer\<close>. The body's \<open>answer\<close> is \<open>None\<close> when it is
  missing or \<open>null\<close>. Live mode compares the trimmed, lower-cased strings for every
  question type and awards the question's full marks or nothing.
\<close>

definition live_isCorrect :: "LiveQuestion \<Rightarrow> string option \<Rightarrow> bool" where
  "live_isCorrect q ans =
     (case ans of
        None \<Rightarrow> False
      | Some a \<Rightarrow> toLowerCase (trim a) = toLowerCase (trim (correct_answer q)))"

definition has_answered :: "int \<Rightarrow> LiveParticipant \<Rightarrow> bool" where
  "has_answered idx p = list_ex (\<lambda>a. questionIndex a = idx) (answers p)"

definition live_answer :: "string \<Rightarrow> JwtPayload option \<Rightarrow> string option \<Rightarrow> int \<Rightarrow> world \<Rightarrow> reply \<times> world" where
  "live_answer code user ans now w =
     (case user of
        None \<Rightarrow> (Error Unauthorized, w)
      | Some u \<Rightarrow>
          (case liveSessions w code of
             None \<Rightarrow> (Error Session_not_found, w)
           | Some session \<Rightarrow>
               if status session \<noteq> Question then (Error No_active_question, w)
               else (case map_get (participants session) (jwt_userId u) of
                  None \<Rightarrow> (Error Not_a_participant, w)
                | Some participant \<Rightarrow>
                    if has_answered (currentQuestionIndex session) participant
                    then (Error Already_answered, w)
                    else (case nth_opt (questions session) (currentQuestionIndex session) of
                       None \<Rightarrow> (Error TypeError, w)
                     | Some q \<Rightarrow>
                         let isCorrect = live_isCorrect q ans;
                             timeTaken = of_int (now - questionStartedAt session) / 1000;
                             p1 = (if isCorrect then participant\<lparr>score := score participant + marks q\<rparr>
                                   else participant);
                             p2 = p1\<lparr>answers := answers p1 @
                                    [\<lparr>questionIndex = currentQuestionIndex session,
                                      answer = (case ans of None \<Rightarrow> [] | Some a \<Rightarrow> a),
                                      correct = isCorrect,
                                      time = timeTaken\<rparr>]\<rparr>;
                             s1 = session\<lparr>participants := map_set (participants session) (jwt_userId u) p2\<rparr>;
                             answered = length (filter (has_answered (currentQuestionIndex s1))
                                                  (map_values (participants s1)));
                             s2 = broadcastSSE s1 (Answer_update answered (map_size (participants s1)))
                         in (Answered isCorrect (score p2),
                             w\<lparr>liveSessions := (liveSessions w)(code \<mapsto> s2)\<rparr>)))))"

text \<open>
  \<open>POST /api/live/:code/end\<close>, and the timer it sets: one minute later the join code
  is deleted from the registry.
\<close>

definition live_end :: "string \<Rightarrow> JwtPayload option \<Rightarrow> world \<Rightarrow> reply \<times> world" where
  "live_end code user w =
     (case user of
        None \<Rightarrow> (Error Unauthorized, w)
      | Some u \<Rightarrow>
          if \<not> roleMiddleware [''teacher'', ''admin''] u then (Error Insufficient_permissions, w)
          else (case liveSessions w code of
             None \<Rightarrow> (Error Session_not_found, w)
           | Some session \<Rightarrow>
               let s1 = session\<lparr>status := Ended\<rparr>;
                   lb = leaderboard s1;
                   s2 = broadcastSSE s1 (Quiz_ended lb)
               in (Ended_reply lb,
                   w\<lparr>liveSessions := (liveSessions w)(code \<mapsto> s2), timers := timers w @ [code]\<rparr>)))"

definition timer_fires :: "string \<Rightarrow> world \<Rightarrow> world" where
  "timer_fires code w =
     (if code \<in> set (timers w)
      then w\<lparr>liveSessions := (liveSessions w)(code := None), timers := remove1 code (timers w)\<rparr>
      else w)"

section \<open>Runs of the live routes\<close>

text \<open>
  A request to one of the live routes, or one of the two callbacks. A run applies a
  list of them, in order, to the process state; the server starts with no session
  and, as far as the live routes are concerned, empty tables.
\<close>

datatype op =
    Start_live string "JwtPayload option" "quiz option" "LiveQuestion list" "string list"
  | Stream string "JwtPayload option" nat bool
  | Close string nat
  | Join string "JwtPayload option" "string option"
  | Next string "JwtPayload option" int
  | Answer string "JwtPayload option" "string option" int
  | End string "JwtPayload option"
  | Timer string

fun step :: "op \<Rightarrow> world \<Rightarrow> world" where
  "step (Start_live quiz_id user quiz_row qs draws) w =
     (case start_live quiz_id user quiz_row qs draws w of None \<Rightarrow> w | Some (r, w') \<Rightarrow> w')"
| "step (Stream code user cid brk) w = snd (live_stream code user cid brk w)"
| "step (Close code cid) w = stream_close code cid w"
| "step (Join code user user_name) w = snd (live_join code user user_name w)"
| "step (Next code user now) w = snd (live_next code user now w)"
| "step (Answer code user ans now) w = snd (live_answer code user ans now w)"
| "step (End code user) w = snd (live_end code user w)"
| "step (Timer code) w = timer_fires code w"

definition run :: "op list \<Rightarrow> world \<Rightarrow> world" where
  "run ops w = foldl (\<lambda>w' x. step x w') w ops"

definition init_world :: world where
  "init_world = \<lparr>liveSessions = Map.empty, quizAttempts = [], studentAnswers = [],
                  next_id = 0, timers = []\<rparr>"

section \<open>Scoring in the asynchronous submission route\<close>

text \<open>
  The scoring switch of \<open>POST /api/quizzes/:id/submit\<close>, for one submitted answer.
  \<open>JSON.parse\<close> is the parameter \<open>parse\<close> (\<open>None\<close> when it throws). The \<open>try\<close>
  blocks of the matching and ordering branches turn every exception into "incorrect,
  no marks"; the fill-in-blank branch has no \<open>try\<close>, so a malformed \<open>acceptable\<close>
  list is an uncaught \<open>TypeError\<close>. The fields read from the question row are those
  of \<open>LiveQuestion\<close>.
\<close>

fun truthy :: "json \<Rightarrow> bool" where
  "truthy JNull = False"
| "truthy (JBool b) = b"
| "truthy (JNum n) = (n \<noteq> 0)"
| "truthy (JStr s) = (s \<noteq> [])"
| "truthy (JArr xs) = True"
| "truthy (JObj kvs) = True"

text \<open>
  Reading a property such as \<open>left\<close>, \<open>right\<close> or \<open>acceptable\<close>: \<open>None\<close> is
  \<open>undefined\<close>, reading from \<open>null\<close> throws.
\<close>

fun get_prop :: "json \<Rightarrow> string \<Rightarrow> error + json option" where
  "get_prop JNull k = Inl TypeError"
| "get_prop (JObj kvs) k = Inr (map_of kvs k)"
| "get_prop (JBool b) k = Inr None"
| "get_prop (JNum n) k = Inr None"
| "get_prop (JStr s) k = Inr None"
| "get_prop (JArr xs) k = Inr None"

text \<open>\<open>x?.trim().toLowerCase()\<close>\<close>

fun opt_norm :: "json option \<Rightarrow> error + string option" where
  "opt_norm None = Inr None"
| "opt_norm (Some JNull) = Inr None"
| "opt_norm (Some (JStr s)) = Inr (Some (toLowerCase (trim s)))"
| "opt_norm (Some (JBool b)) = Inl TypeError"
| "opt_norm (Some (JNum n)) = Inl TypeError"
| "opt_norm (Some (JArr xs)) = Inl TypeError"
| "opt_norm (Some (JObj kvs)) = Inl TypeError"

definition side_eq :: "json \<Rightarrow> json \<Rightarrow> string \<Rightarrow> error + bool" where
  "side_eq sp cp k =
     (case get_prop sp k of
        Inl e \<Rightarrow> Inl e
      | Inr a \<Rightarrow>
          (case opt_norm a of
             Inl e \<Rightarrow> Inl e
           | Inr x \<Rightarrow>
               (case get_prop cp k of
                  Inl e \<Rightarrow> Inl e
                | Inr b \<Rightarrow>
                    (case opt_norm b of
                       Inl e \<Rightarrow> Inl e
                     | Inr y \<Rightarrow> Inr (x = y)))))"

definition pair_matches :: "json \<Rightarrow> json \<Rightarrow> error + bool" where
  "pair_matches sp cp =
     (case side_eq sp cp ''left'' of
        Inl e \<Rightarrow> Inl e
      | Inr l \<Rightarrow> if l then side_eq sp cp ''right'' else Inr False)"

fun js_find :: "(json \<Rightarrow> error + bool) \<Rightarrow> json list \<Rightarrow> error + json option" where
  "js_find P [] = Inr None"
| "js_find P (x # xs) =
     (case P x of
        Inl e \<Rightarrow> Inl e
      | Inr b \<Rightarrow> if b then Inr (Some x) else js_find P xs)"

text \<open>\<open>for (const cp of correctPairs)\<close>: arrays and strings are iterable.\<close>

fun js_iterate :: "json \<Rightarrow> error + json list" where
  "js_iterate (JArr xs) = Inr xs"
| "js_iterate (JStr s) = Inr (map (\<lambda>c. JStr [c]) s)"
| "js_iterate JNull = Inl TypeError"
| "js_iterate (JBool b) = Inl TypeError"
| "js_iterate (JNum n) = Inl TypeError"
| "js_iterate (JObj kvs) = Inl TypeError"

fun count_matches :: "json \<Rightarrow> json list \<Rightarrow> nat \<Rightarrow> error + nat" where
  "count_matches studentPairs [] matchCount = Inr matchCount"
| "count_matches studentPairs (cp # cps) matchCount =
     (case studentPairs of
        JArr sps \<Rightarrow>
          (case js_find (\<lambda>sp. pair_matches sp cp) sps of
             Inl e \<Rightarrow> Inl e
           | Inr m \<Rightarrow>
               count_matches studentPairs cps
                 (if (case m of None \<Rightarrow> False | Some v \<Rightarrow> truthy v)
                  then matchCount + 1 else matchCount))
      | _ \<Rightarrow> Inl TypeError)"

definition score_matching :: "(string \<Rightarrow> json option) \<Rightarrow> LiveQuestion \<Rightarrow> string \<Rightarrow> bool \<times> int" where
  "score_matching parse q ans =
     (case parse ans of
        None \<Rightarrow> (False, 0)
      | Some studentPairs \<Rightarrow>
          (case parse (correct_answer q) of
             None \<Rightarrow> (False, 0)
           | Some correctPairs \<Rightarrow>
               (case js_iterate correctPairs of
                  Inl e \<Rightarrow> (False, 0)
                | Inr cps \<Rightarrow>
                    (case count_matches studentPairs cps 0 of
                       Inl e \<Rightarrow> (False, 0)
                     | Inr matchCount \<Rightarrow>
                         let isCorrect = (matchCount = length cps);
                             ratio = (if length cps > 0
                                      then of_nat matchCount / of_nat (length cps) else 0)
                         in (isCorrect, Math_round (of_int (marks q) * ratio))))))"

text \<open>\<open>v === correctOrder[i]\<close> on parsed JSON: arrays and objects are never identical.\<close>

fun strict_eq :: "json \<Rightarrow> json \<Rightarrow> bool" where
  "strict_eq JNull JNull = True"
| "strict_eq (JBool a) (JBool b) = (a = b)"
| "strict_eq (JNum a) (JNum b) = (a = b)"
| "strict_eq (JStr a) (JStr b) = (a = b)"
| "strict_eq _ _ = False"

definition score_ordering :: "(string \<Rightarrow> json option) \<Rightarrow> LiveQuestion \<Rightarrow> string \<Rightarrow> bool \<times> int" where
  "score_ordering parse q ans =
     (case parse ans of
        None \<Rightarrow> (False, 0)
      | Some studentOrder \<Rightarrow>
          (case parse (correct_answer q) of
             None \<Rightarrow> (False, 0)
           | Some correctOrder \<Rightarrow>
               let isCorrect =
                     (case studentOrder of
                        JArr ss \<Rightarrow>
                          (case correctOrder of
                             JArr cs \<Rightarrow> length ss = length cs \<and>
                                        list_all (\<lambda>(v, c). strict_eq v c) (zip ss cs)
                           | _ \<Rightarrow> False)
                      | _ \<Rightarrow> False)
               in (isCorrect, if isCorrect then marks q else 0)))"

fun norm_strings :: "json list \<Rightarrow> error + string list" where
  "norm_strings [] = Inr []"
| "norm_strings (x # xs) =
     (case x of
        JStr s \<Rightarrow> (case norm_strings xs of Inl e \<Rightarrow> Inl e | Inr ys \<Rightarrow> Inr (toLowerCase (trim s) # ys))
      | _ \<Rightarrow> Inl TypeError)"

text \<open>\<open>(opts?.acceptable || [q.correct_answer]).map((s) => s.trim().toLowerCase())\<close>\<close>

definition acceptable_list :: "LiveQuestion \<Rightarrow> error + string list" where
  "acceptable_list q =
     (case (case options q of JObj kvs \<Rightarrow> map_of kvs ''acceptable'' | _ \<Rightarrow> None) of
        None \<Rightarrow> Inr [toLowerCase (trim (correct_answer q))]
      | Some v \<Rightarrow>
          if \<not> truthy v then Inr [toLowerCase (trim (correct_answer q))]
          else (case v of JArr xs \<Rightarrow> norm_strings xs | _ \<Rightarrow> Inl TypeError))"

text \<open>\<open>split(" ")\<close> and \<open>includes\<close> on strings.\<close>

fun split_space :: "string \<Rightarrow> string list" where
  "split_space [] = [[]]"
| "split_space (c # cs) =
     (if c = CHR '' '' then [] # split_space cs
      else (case split_space cs of
              w # ws \<Rightarrow> (c # w) # ws
            | [] \<Rightarrow> [[c]]))"

fun str_includes :: "string \<Rightarrow> string \<Rightarrow> bool" where
  "str_includes [] w = (w = [])"
| "str_includes (c # cs) w = (take (length w) (c # cs) = w \<or> str_includes cs w)"

definition submit_score ::
  "(string \<Rightarrow> json option) \<Rightarrow> LiveQuestion \<Rightarrow> string \<Rightarrow> error + (bool \<times> int)" where
  "submit_score parse q ans =
     (if question_type q = ''mcq'' \<or> question_type q = ''true_false'' then
        let isCorrect = (toLowerCase (trim ans) = toLowerCase (trim (correct_answer q)))
        in Inr (isCorrect, if isCorrect then marks q else 0)
      else if question_type q = ''fill_in_blank'' then
        (case acceptable_list q of
           Inl e \<Rightarrow> Inl e
         | Inr acceptable \<Rightarrow>
             let studentAnswer = toLowerCase (trim ans);
                 isCorrect = (studentAnswer \<in> set acceptable)
             in Inr (isCorrect, if isCorrect then marks q else 0))
      else if question_type q = ''matching'' then Inr (score_matching parse q ans)
      else if question_type q = ''ordering'' then Inr (score_ordering parse q ans)
      else
        let studentLower = toLowerCase (trim ans);
            correctLower = toLowerCase (trim (correct_answer q))
        in if studentLower = correctLower then Inr (True, marks q)
           else if list_ex (\<lambda>word. str_includes studentLower word)
                     (filter (\<lambda>w. length w > 3) (split_space correctLower))
           then Inr (False, \<lceil>of_int (marks q) * (1 / 2 :: rat)\<rceil>)
           else Inr (False, 0))"

text \<open>
  What the live route awards for one answer: the verdict \<open>live_isCorrect\<close>, and the
  question's marks or nothing (the amount added to the running score, and the
  \<open>marks_awarded\<close> saved with the answer).
\<close>

definition live_marksAwarded :: "LiveQuestion \<Rightarrow> string option \<Rightarrow> int" where
  "live_marksAwarded q ans = (if live_isCorrect q ans then marks q else 0)"

section \<open>Score bookkeeping\<close>

text \<open>
  The sum of the marks of the questions for which a participant holds an answer
  record marked correct.
\<close>

definition correct_sum :: "LiveSession \<Rightarrow> LiveParticipant \<Rightarrow> int" where
  "correct_sum session p =
     sum_list (map (\<lambda>i. if list_ex (\<lambda>a. questionIndex a = int i \<and> correct a) (answers p)
                         then marks (questions session ! i) else 0)
                   [0..<length (questions session)])"

definition session_inv :: "LiveSession \<Rightarrow> bool" where
  "session_inv session =
     (- 1 \<le> currentQuestionIndex session \<and>
      (status session \<noteq> Question \<or>
         (0 \<le> currentQuestionIndex session \<and>
          currentQuestionIndex session < int (length (questions session)))) \<and>
      list_all (\<lambda>(uid, p). score p = correct_sum session p) (participants session))"

definition world_inv :: "world \<Rightarrow> bool" where
  "world_inv w = (\<forall>code session. liveSessions w code = Some session \<longrightarrow> session_inv session)"

section \<open>The session after an accepted request\<close>

text \<open>
  The updates that \<open>answer\<close> makes to the session when it accepts an answer, and
  those that \<open>join\<close> makes when it registers a new participant, collected in one
  term each; the lemmas \<open>live_answer_accepts\<close> and \<open>live_join_new\<close> show that
  the routes compute exactly these sessions.
\<close>

definition answered_session ::
  "LiveSession \<Rightarrow> string \<Rightarrow> LiveParticipant \<Rightarrow> LiveQuestion \<Rightarrow> string option \<Rightarrow> int \<Rightarrow> LiveSession" where
  "answered_session session uid participant q ans now =
     (let p2 = participant\<lparr>score := score participant + live_marksAwarded q ans,
                 answers := answers participant @
                   [\<lparr>questionIndex = currentQuestionIndex session,
                     answer = (case ans of None \<Rightarrow> [] | Some a \<Rightarrow> a),
                     correct = live_isCorrect q ans,
                     time = of_int (now - questionStartedAt session) / 1000\<rparr>]\<rparr>;
          s1 = session\<lparr>participants := map_set (participants session) uid p2\<rparr>
      in broadcastSSE s1
           (Answer_update
              (length (filter (has_answered (currentQuestionIndex s1)) (map_values (participants s1))))
              (map_size (participants s1))))"

definition new_participant :: "string \<Rightarrow> string option \<Rightarrow> LiveParticipant" where
  "new_participant uid user_name =
     \<lparr>userId = uid, name = (case user_name of None \<Rightarrow> ''Unknown'' | Some n \<Rightarrow> n),
      score = 0, answers = []\<rparr>"

definition joined_session :: "LiveSession \<Rightarrow> string \<Rightarrow> string option \<Rightarrow> LiveSession" where
  "joined_session session uid user_name =
     (let s1 = session\<lparr>participants :=
                 map_set (participants session) uid (new_participant uid user_name)\<rparr>
      in broadcastSSE s1
           (Participant_joined uid (name (new_participant uid user_name))
              (map_size (participants s1))))"

text \<open>
  Likewise the session after a \<open>next\<close> that ends the quiz, and after a \<open>next\<close>
  that opens question \<open>q\<close> (lemmas \<open>live_next_ends\<close> and \<open>live_next_asks\<close>).
\<close>

definition ended_session :: "LiveSession \<Rightarrow> LiveSession" where
  "ended_session session =
     (let s2 = session\<lparr>currentQuestionIndex := currentQuestionIndex session + 1, status := Ended\<rparr>
      in broadcastSSE s2 (Quiz_ended (leaderboard s2)))"

definition asked_session :: "LiveSession \<Rightarrow> LiveQuestion \<Rightarrow> int \<Rightarrow> LiveSession" where
  "asked_session session q now =
     (let s2 = session\<lparr>currentQuestionIndex := currentQuestionIndex session + 1,
                       status := Question, questionStartedAt := now\<rparr>
      in broadcastSSE s2 (Question_event
           \<lparr>p_index = currentQuestionIndex s2,
             p_total = length (questions s2),
             p_question_text = question_text q,
             p_question_type = question_type q,
             p_options = options q,
             p_marks = marks q,
             p_difficulty = difficulty q,
             p_time_limit = Math_round (questionTimeLimit s2)\<rparr>))"

section \<open>Observations and example data\<close>

text \<open>What the clients of a session have been sent, and the session's participants.\<close>

definition client_logs :: "world \<Rightarrow> string \<Rightarrow> sse_event list list" where
  "client_logs w code =
     (case liveSessions w code of None \<Rightarrow> [] | Some s \<Rightarrow> map received (sseClients s))"

definition scoreboard :: "world \<Rightarrow> string \<Rightarrow> (string \<times> int \<times> nat) list" where
  "scoreboard w code =
     (case liveSessions w code of
        None \<Rightarrow> []
      | Some s \<Rightarrow> map (\<lambda>(uid, p). (uid, score p, length (answers p))) (participants s))"

definition ex_host :: "JwtPayload option" where
  "ex_host = Some \<lparr>jwt_userId = ''t1'', jwt_role = ''teacher''\<rparr>"

definition ex_other_teacher :: "JwtPayload option" where
  "ex_other_teacher = Some \<lparr>jwt_userId = ''t2'', jwt_role = ''teacher''\<rparr>"

definition ex_student :: "JwtPayload option" where
  "ex_student = Some \<lparr>jwt_userId = ''s1'', jwt_role = ''student''\<rparr>"

definition ex_rejoin :: "JwtPayload" where
  "ex_rejoin = \<lparr>jwt_userId = ''B'', jwt_role = ''student''\<rparr>"

definition ex_q1 :: LiveQuestion where
  "ex_q1 = \<lparr>q_id = ''q1'', question_text = ''Pick one'', question_type = ''mcq'',
            options = JArr [JStr ''A'', JStr ''B'', JStr ''C'', JStr ''D''],
            correct_answer = ''B'', marks = 1, difficulty = ''easy''\<rparr>"

definition ex_q2 :: LiveQuestion where
  "ex_q2 = \<lparr>q_id = ''q2'', question_text = ''Water is wet'', question_type = ''true_false'',
            options = JArr [JStr ''True'', JStr ''False''],
            correct_answer = ''True'', marks = 1, difficulty = ''easy''\<rparr>"

definition ex_quiz :: "quiz option" where
  "ex_quiz = Some \<lparr>quiz_title = ''Quiz'', quiz_status = ''published'', time_limit_minutes = None\<rparr>"

definition ex_code :: string where
  "ex_code = ''123456''"

text \<open>
  The host starts a live session of the two-question quiz; one student opens the
  stream and joins.
\<close>

definition ex_setup :: "op list" where
  "ex_setup = [Start_live ''quiz1'' ex_host ex_quiz [ex_q1, ex_q2] [ex_code],
               Stream ex_code ex_student 0 False,
               Join ex_code ex_student (Some ''Ann'')]"

text \<open>
  The session after the first \<open>next\<close>; the session when both questions have
  been asked and answered; the whole session, which the third \<open>next\<close> ends; and
  the session that the host ends after the first answer.
\<close>

definition ex_asked :: world where
  "ex_asked = run (ex_setup @ [Next ex_code ex_host 1000]) init_world"

definition ex_answered :: world where
  "ex_answered = run (ex_setup @
     [Next ex_code ex_host 1000,
      Answer ex_code ex_student (Some ''b'') 3000,
      Next ex_code ex_host 5000,
      Answer ex_code ex_student (Some ''False'') 6000]) init_world"

definition ex_session :: "op list" where
  "ex_session = ex_setup @
     [Next ex_code ex_host 1000,
      Answer ex_code ex_student (Some ''b'') 3000,
      Next ex_code ex_host 5000,
      Answer ex_code ex_student (Some ''False'') 6000,
      Next ex_code ex_host 9000]"

definition ex_ended_early :: "op list" where
  "ex_ended_early = ex_setup @
     [Next ex_code ex_host 1000,
      Answer ex_code ex_student (Some ''b'') 3000,
      End ex_code ex_host]"

text \<open>A session, written down directly, of four participants who hold scores.\<close>

definition ex_player :: "string \<Rightarrow> int \<Rightarrow> string \<times> LiveParticipant" where
  "ex_player n sc = (n, \<lparr>userId = n, name = n, score = sc, answers = []\<rparr>)"

definition ex_board :: LiveSession where
  "ex_board = \<lparr>quizId = ''quiz1'', teacherId = ''t1'', status = Question,
               currentQuestionIndex = 1, questionStartedAt = 0, questionTimeLimit = 900,
               participants = [ex_player ''A'' 30, ex_player ''B'' 50,
                               ex_player ''C'' 50, ex_player ''D'' 10],
               sseClients = [], questions = [ex_q1, ex_q2]\<rparr>"

definition ex_ranking :: "LeaderboardEntry list" where
  "ex_ranking = [\<lparr>rank = 1, lb_name = ''B'', lb_score = 50\<rparr>,
                 \<lparr>rank = 2, lb_name = ''C'', lb_score = 50\<rparr>,
                 \<lparr>rank = 3, lb_name = ''A'', lb_score = 30\<rparr>,
                 \<lparr>rank = 4, lb_name = ''D'', lb_score = 10\<rparr>]"

definition ex_board_world :: world where
  "ex_board_world = init_world\<lparr>liveSessions := [ex_code \<mapsto> ex_board]\<rparr>"

text \<open>
  The ordering question that the question-generation tool writes: the options carry
  the items and \<open>correct_order\<close>, and \<open>correct_answer\<close> is the JSON text of the
  same array.
\<close>

definition ex_ordering :: LiveQuestion where
  "ex_ordering = \<lparr>q_id = ''q3'', question_text = ''Order the steps'', question_type = ''ordering'',
      options = JObj [(''items'', JArr [JStr ''Step 1'', JStr ''Step 2'', JStr ''Step 3'', JStr ''Step 4'']),
                      (''correct_order'', JArr [JNum 0, JNum 1, JNum 2, JNum 3])],
      correct_answer = ''[0,1,2,3]'', marks = 3, difficulty = ''hard''\<rparr>"

definition ex_ordering_setup :: "op list" where
  "ex_ordering_setup = [Start_live ''quiz2'' ex_host ex_quiz [ex_ordering] [ex_code],
                        Stream ex_code ex_student 0 False,
                        Join ex_code ex_student (Some ''Ann''),
                        Next ex_code ex_host 1000]"

text \<open>A fill-in-blank question with two acceptable answers.\<close>

definition ex_blank :: LiveQuestion where
  "ex_blank = \<lparr>q_id = ''q4'', question_text = ''Name the liquid'', question_type = ''fill_in_blank'',
      options = JObj [(''sentence'', JStr ''Fish live in ___''),
                      (''acceptable'', JArr [JStr ''H2O'', JStr ''water''])],
      correct_answer = ''H2O'', marks = 2, difficulty = ''medium''\<rparr>"

definition ex_no_parse :: "string \<Rightarrow> json option" where
  "ex_no_parse s = None"

section \<open>The order of joining\<close>

text \<open>
  The order in which students joined the session that is registered under a join
  code, read off the requests and their replies alone: a student joins with the
  first \<open>join\<close> request for that code that is answered with the session summary;
  the order starts afresh when \<open>start-live\<close> registers a new session under the
  code, or when the timer removes the session.
\<close>

definition log_step :: "op \<Rightarrow> world \<Rightarrow> string \<Rightarrow> string list \<Rightarrow> string list" where
  "log_step x w code js =
     (case x of
        Start_live quiz_id user quiz_row qs draws \<Rightarrow>
          (case start_live quiz_id user quiz_row qs draws w of
             Some (Started c n t, w') \<Rightarrow> if c = code then [] else js
           | _ \<Rightarrow> js)
      | Join c user user_name \<Rightarrow>
          (case user of
             None \<Rightarrow> js
           | Some u \<Rightarrow>
               (case fst (live_join c user user_name w) of
                  Joined st k m \<Rightarrow>
                    if c = code \<and> jwt_userId u \<notin> set js then js @ [jwt_userId u] else js
                | _ \<Rightarrow> js))
      | Timer c \<Rightarrow> if c = code \<and> c \<in> set (timers w) then [] else js
      | _ \<Rightarrow> js)"

fun join_order_from :: "op list \<Rightarrow> world \<Rightarrow> string \<Rightarrow> string list \<Rightarrow> string list" where
  "join_order_from [] w code js = js"
| "join_order_from (x # xs) w code js = join_order_from xs (step x w) code (log_step x w code js)"

definition join_order :: "op list \<Rightarrow> string \<Rightarrow> string list" where
  "join_order ops code = join_order_from ops init_world code []"

text \<open>
  The invariant behind it: the keys of the participants map are the students in
  join order, without repetition, and every participant is stored under its own
  user id.
\<close>

definition join_inv :: "world \<Rightarrow> string \<Rightarrow> string list \<Rightarrow> bool" where
  "join_inv w code js =
     (case liveSessions w code of
        None \<Rightarrow> True
      | Some s \<Rightarrow> map fst (participants s) = js \<and> distinct js \<and>
                  list_all (\<lambda>(k, p). userId p = k) (participants s))"

section \<open>More example data\<close>

text \<open>
  A session of three questions worth 30, 50 and 10 marks. A, B, C and D join in
  this order. A answers the first question correctly; C and then, much later, B
  answer the second correctly, and C sends a second \<open>join\<close> in between; D answers
  the first wrongly and the third correctly. The scores are 30, 50, 50 and 10.
\<close>

definition ex_teacher :: JwtPayload where
  "ex_teacher = \<lparr>jwt_userId = ''t1'', jwt_role = ''teacher''\<rparr>"

definition ex_user :: "string \<Rightarrow> JwtPayload option" where
  "ex_user uid = Some \<lparr>jwt_userId = uid, jwt_role = ''student''\<rparr>"

definition ex_mcq :: "string \<Rightarrow> string \<Rightarrow> int \<Rightarrow> LiveQuestion" where
  "ex_mcq i a m = \<lparr>q_id = i, question_text = ''Pick one'', question_type = ''mcq'',
      options = JArr [JStr ''A'', JStr ''B'', JStr ''C'', JStr ''D''],
      correct_answer = a, marks = m, difficulty = ''easy''\<rparr>"

definition ex_tie_ops :: "op list" where
  "ex_tie_ops =
     [Start_live ''quiz3'' ex_host ex_quiz
        [ex_mcq ''q30'' ''A'' 30, ex_mcq ''q50'' ''B'' 50, ex_mcq ''q10'' ''C'' 10] [ex_code],
      Join ex_code (ex_user ''A'') (Some ''A''),
      Join ex_code (ex_user ''B'') (Some ''B''),
      Join ex_code (ex_user ''C'') (Some ''C''),
      Join ex_code (ex_user ''D'') (Some ''D''),
      Next ex_code ex_host 1000,
      Answer ex_code (ex_user ''A'') (Some ''a'') 2000,
      Answer ex_code (ex_user ''D'') (Some ''b'') 2500,
      Next ex_code ex_host 3000,
      Answer ex_code (ex_user ''C'') (Some ''b'') 3500,
      Join ex_code (ex_user ''C'') (Some ''C''),
      Answer ex_code (ex_user ''B'') (Some ''B'') 9000,
      Next ex_code ex_host 10000,
      Answer ex_code (ex_user ''D'') (Some ''c'') 11000]"

definition ex_tie_world :: world where
  "ex_tie_world = run ex_tie_ops init_world"

text \<open>
  A short-answer question and a matching question of three pairs, with a
  submission that holds two of the pairs; \<open>ex_parse\<close> is \<open>JSON.parse\<close> on the JSON
  texts of the examples.
\<close>

definition ex_short :: LiveQuestion where
  "ex_short = \<lparr>q_id = ''q5'', question_text = ''What do plants do with light?'',
      question_type = ''short_answer'', options = JNull,
      correct_answer = ''Photosynthesis process'', marks = 3, difficulty = ''medium''\<rparr>"

definition ex_pair :: "string \<Rightarrow> string \<Rightarrow> json" where
  "ex_pair l r = JObj [(''left'', JStr l), (''right'', JStr r)]"

definition ex_matching :: LiveQuestion where
  \<open>ex_matching = \<lparr>q_id = ''q6'', question_text = ''Match'', question_type = ''matching'',
      options = JObj [(''pairs'', JArr [ex_pair ''A'' ''1'', ex_pair ''B'' ''2'', ex_pair ''C'' ''3''])],
      correct_answer = ''[{"left":"A","right":"1"},{"left":"B","right":"2"},{"left":"C","right":"3"}]'',
      marks = 3, difficulty = ''medium''\<rparr>\<close>

definition ex_two_pairs :: string where
  \<open>ex_two_pairs = ''[{"left":"A","right":"1"},{"left":"C","right":"3"}]''\<close>

definition ex_parse :: "string \<Rightarrow> json option" where
  "ex_parse s =
     (if s = correct_answer ex_matching
      then Some (JArr [ex_pair ''A'' ''1'', ex_pair ''B'' ''2'', ex_pair ''C'' ''3''])
      else if s = ex_two_pairs then Some (JArr [ex_pair ''A'' ''1'', ex_pair ''C'' ''3''])
      else if s = ''[0,1,2,3]'' \<or> s = ''[0, 1, 2, 3]''
      then Some (JArr [JNum 0, JNum 1, JNum 2, JNum 3])
      else None)"

section \<open>Facts about maps and session updates\<close>

lemma map_get_map_set [simp]: "map_get (map_set m k v) k = Some v"
  by (induction m) (auto simp: map_get_def)

lemma map_set_absent: "\<not> map_has m k \<Longrightarrow> map_set m k v = m @ [(k, v)]"
  by (induction m) (auto simp: map_has_def)

lemma map_set_keys: "fst ` set (map_set m k v) = insert k (fst ` set m)"
proof (induction m)
  case Nil
  show ?case by simp
next
  case (Cons a m)
  obtain k' v' where a: "a = (k', v')" by (cases a)
  show ?case using Cons by (cases "k' = k") (simp_all add: a insert_commute)
qed

lemma map_has_map_set [simp]: "map_has (map_set m k v) k"
  by (simp add: map_has_def map_set_keys)

lemma map_set_distinct: "distinct (map fst m) \<Longrightarrow> distinct (map fst (map_set m k v))"
  by (induction m) (auto simp: map_set_keys)

lemma list_all_map_set:
  "list_all P m \<Longrightarrow> P (k, v) \<Longrightarrow> list_all P (map_set m k v)"
  by (induction m) auto

lemma map_get_mem: "map_get m k = Some v \<Longrightarrow> (k, v) \<in> set m"
  by (simp add: map_get_def map_of_SomeD)

lemma nth_opt_Some: "nth_opt xs i = Some x \<Longrightarrow> 0 \<le> i \<and> i < int (length xs) \<and> x = xs ! nat i"
  by (auto simp: nth_opt_def split: if_splits)

lemma broadcastSSE_fields [simp]:
  "quizId (broadcastSSE s e) = quizId s"
  "teacherId (broadcastSSE s e) = teacherId s"
  "status (broadcastSSE s e) = status s"
  "currentQuestionIndex (broadcastSSE s e) = currentQuestionIndex s"
  "questionStartedAt (broadcastSSE s e) = questionStartedAt s"
  "questionTimeLimit (broadcastSSE s e) = questionTimeLimit s"
  "participants (broadcastSSE s e) = participants s"
  "questions (broadcastSSE s e) = questions s"
  by (simp_all add: broadcastSSE_def)

lemma answered_session_fields [simp]:
  "status (answered_session s uid p q ans now) = status s"
  "currentQuestionIndex (answered_session s uid p q ans now) = currentQuestionIndex s"
  "questions (answered_session s uid p q ans now) = questions s"
  by (simp_all add: answered_session_def Let_def)

lemma joined_session_fields [simp]:
  "status (joined_session s uid n) = status s"
  "currentQuestionIndex (joined_session s uid n) = currentQuestionIndex s"
  "questions (joined_session s uid n) = questions s"
  "participants (joined_session s uid n) = map_set (participants s) uid (new_participant uid n)"
  by (simp_all add: joined_session_def Let_def)

lemma world_same [simp]: "liveSessions w code = Some s \<Longrightarrow> w\<lparr>liveSessions := (liveSessions w)(code \<mapsto> s)\<rparr> = w"
  by (simp add: map_upd_triv)

lemma leaderboard_status [simp]: "leaderboard (s\<lparr>status := x\<rparr>) = leaderboard s"
  by (simp add: leaderboard_def)

lemma leaderboard_index [simp]: "leaderboard (s\<lparr>currentQuestionIndex := x\<rparr>) = leaderboard s"
  by (simp add: leaderboard_def)

section \<open>The routes, case by case\<close>

text \<open>
  For each route, what it returns and how it leaves the state on each of its paths.
\<close>

lemma live_join_ended:
  "liveSessions w code = Some s \<Longrightarrow> status s = Ended \<Longrightarrow>
     live_join code (Some u) n w = (Error Session_has_ended, w)"
  by (simp add: live_join_def)

lemma live_join_registered:
  "liveSessions w code = Some s \<Longrightarrow> status s \<noteq> Ended \<Longrightarrow> map_has (participants s) (jwt_userId u) \<Longrightarrow>
     live_join code (Some u) n w =
       (Joined (status s) (map_size (participants s)) (length (questions s)), w)"
  by (simp add: live_join_def Let_def)

lemma live_join_new:
  "liveSessions w code = Some s \<Longrightarrow> status s \<noteq> Ended \<Longrightarrow> \<not> map_has (participants s) (jwt_userId u) \<Longrightarrow>
     live_join code (Some u) n w =
       (Joined (status s) (map_size (participants s) + 1) (length (questions s)),
        w\<lparr>liveSessions := (liveSessions w)(code \<mapsto> joined_session s (jwt_userId u) n)\<rparr>)"
  by (simp add: live_join_def Let_def joined_session_def new_participant_def map_set_absent map_size_def)

lemma live_join_twice:
  assumes s: "liveSessions w code = Some s" and st: "status s \<noteq> Ended"
  shows "live_join code (Some u) n' (snd (live_join code (Some u) n w)) = live_join code (Some u) n w"
proof (cases "map_has (participants s) (jwt_userId u)")
  case True
  with s st show ?thesis by (simp add: live_join_registered)
next
  case False
  let ?s1 = "joined_session s (jwt_userId u) n"
  let ?w1 = "w\<lparr>liveSessions := (liveSessions w)(code \<mapsto> ?s1)\<rparr>"
  have 1: "live_join code (Some u) n w =
       (Joined (status s) (map_size (participants s) + 1) (length (questions s)), ?w1)"
    using s st False by (rule live_join_new)
  have "liveSessions ?w1 code = Some ?s1" by simp
  moreover have "status ?s1 \<noteq> Ended" using st by simp
  moreover have "map_has (participants ?s1) (jwt_userId u)" by simp
  ultimately have "live_join code (Some u) n' ?w1 =
       (Joined (status ?s1) (map_size (participants ?s1)) (length (questions ?s1)), ?w1)"
    by (rule live_join_registered)
  then show ?thesis using False by (simp add: 1 map_set_absent map_size_def)
qed

lemma live_answer_accepts:
  assumes "liveSessions w code = Some s" "status s = Question"
    "map_get (participants s) (jwt_userId u) = Some p"
    "\<not> has_answered (currentQuestionIndex s) p"
    "nth_opt (questions s) (currentQuestionIndex s) = Some q"
  shows "live_answer code (Some u) ans now w =
     (Answered (live_isCorrect q ans) (score p + live_marksAwarded q ans),
      w\<lparr>liveSessions := (liveSessions w)(code \<mapsto> answered_session s (jwt_userId u) p q ans now)\<rparr>)"
  using assms
  by (simp add: live_answer_def answered_session_def live_marksAwarded_def Let_def)

lemma live_answer_cases:
  assumes "live_answer code user ans now w = (r, w')"
  shows "(\<exists>e. r = Error e \<and> w' = w) \<or>
     (\<exists>u s p q. user = Some u \<and> liveSessions w code = Some s \<and> status s = Question \<and>
        map_get (participants s) (jwt_userId u) = Some p \<and>
        \<not> has_answered (currentQuestionIndex s) p \<and>
        nth_opt (questions s) (currentQuestionIndex s) = Some q \<and>
        r = Answered (live_isCorrect q ans) (score p + live_marksAwarded q ans) \<and>
        w' = w\<lparr>liveSessions := (liveSessions w)(code \<mapsto> answered_session s (jwt_userId u) p q ans now)\<rparr>)"
proof (cases user)
  case None
  with assms show ?thesis by (auto simp: live_answer_def)
next
  case u: (Some u)
  show ?thesis
  proof (cases "liveSessions w code")
    case None
    with assms u show ?thesis by (auto simp: live_answer_def)
  next
    case s: (Some s)
    show ?thesis
    proof (cases "status s = Question")
      case False
      with assms u s show ?thesis by (auto simp: live_answer_def)
    next
      case st: True
      show ?thesis
      proof (cases "map_get (participants s) (jwt_userId u)")
        case None
        with assms u s st show ?thesis by (auto simp: live_answer_def)
      next
        case p: (Some p)
        show ?thesis
        proof (cases "has_answered (currentQuestionIndex s) p")
          case True
          with assms u s st p show ?thesis by (auto simp: live_answer_def)
        next
          case na: False
          show ?thesis
          proof (cases "nth_opt (questions s) (currentQuestionIndex s)")
            case None
            with assms u s st p na show ?thesis by (auto simp: live_answer_def)
          next
            case (Some q)
            from live_answer_accepts [OF s st p na Some, of ans now] assms u
            have "r = Answered (live_isCorrect q ans) (score p + live_marksAwarded q ans)"
              and "w' = w\<lparr>liveSessions := (liveSessions w)
                         (code \<mapsto> answered_session s (jwt_userId u) p q ans now)\<rparr>"
              by simp_all
            with u s st p na Some show ?thesis by blast
          qed
        qed
      qed
    qed
  qed
qed

lemma live_next_ends:
  assumes "liveSessions w code = Some s" "roleMiddleware [''teacher'', ''admin''] u"
    "teacherId s = jwt_userId u" "int (length (questions s)) \<le> currentQuestionIndex s + 1"
  shows "live_next code (Some u) now w =
     (Ended_reply (leaderboard s),
      save_attempts (ended_session s) now (participants s)
        (w\<lparr>liveSessions := (liveSessions w)(code \<mapsto> ended_session s)\<rparr>))"
  using assms by (simp add: live_next_def ended_session_def Let_def)

lemma live_next_asks:
  assumes "liveSessions w code = Some s" "roleMiddleware [''teacher'', ''admin''] u"
    "teacherId s = jwt_userId u" "currentQuestionIndex s + 1 < int (length (questions s))"
    "nth_opt (questions s) (currentQuestionIndex s + 1) = Some q"
  shows "live_next code (Some u) now w =
     (Question_reply (currentQuestionIndex s + 1) (length (questions s)),
      w\<lparr>liveSessions := (liveSessions w)(code \<mapsto> asked_session s q now)\<rparr>)"
  using assms by (simp add: live_next_def asked_session_def Let_def)

lemma live_next_throws:
  assumes "liveSessions w code = Some s" "roleMiddleware [''teacher'', ''admin''] u"
    "teacherId s = jwt_userId u" "currentQuestionIndex s + 1 < int (length (questions s))"
    "nth_opt (questions s) (currentQuestionIndex s + 1) = None"
  shows "live_next code (Some u) now w =
     (Error TypeError,
      w\<lparr>liveSessions := (liveSessions w)(code \<mapsto>
           s\<lparr>currentQuestionIndex := currentQuestionIndex s + 1, status := Question,
             questionStartedAt := now\<rparr>)\<rparr>)"
  using assms by (simp add: live_next_def Let_def)

lemma live_next_cases:
  assumes "live_next code user now w = (r, w')"
  shows "(\<exists>e. r = Error e \<and> w' = w) \<or>
    (\<exists>u s. user = Some u \<and> roleMiddleware [''teacher'', ''admin''] u \<and>
       liveSessions w code = Some s \<and> teacherId s = jwt_userId u \<and>
       ((int (length (questions s)) \<le> currentQuestionIndex s + 1 \<and>
         r = Ended_reply (leaderboard s) \<and>
         w' = save_attempts (ended_session s) now (participants s)
                (w\<lparr>liveSessions := (liveSessions w)(code \<mapsto> ended_session s)\<rparr>)) \<or>
        (currentQuestionIndex s + 1 < int (length (questions s)) \<and>
           (\<exists>q. nth_opt (questions s) (currentQuestionIndex s + 1) = Some q \<and>
              r = Question_reply (currentQuestionIndex s + 1) (length (questions s)) \<and>
              w' = w\<lparr>liveSessions := (liveSessions w)(code \<mapsto> asked_session s q now)\<rparr>)) \<or>
        (currentQuestionIndex s + 1 < int (length (questions s)) \<and>
           nth_opt (questions s) (currentQuestionIndex s + 1) = None \<and>
           r = Error TypeError \<and>
           w' = w\<lparr>liveSessions := (liveSessions w)(code \<mapsto>
                  s\<lparr>currentQuestionIndex := currentQuestionIndex s + 1, status := Question,
                    questionStartedAt := now\<rparr>)\<rparr>)))"
proof (cases user)
  case None
  with assms show ?thesis by (auto simp: live_next_def)
next
  case u: (Some u)
  show ?thesis
  proof (cases "roleMiddleware [''teacher'', ''admin''] u")
    case False
    with assms u show ?thesis by (auto simp: live_next_def)
  next
    case role: True
    show ?thesis
    proof (cases "liveSessions w code")
      case None
      with assms u role show ?thesis by (auto simp: live_next_def)
    next
      case s: (Some s)
      show ?thesis
      proof (cases "teacherId s = jwt_userId u")
        case False
        with assms u role s show ?thesis by (auto simp: live_next_def)
      next
        case host: True
        show ?thesis
        proof (cases "int (length (questions s)) \<le> currentQuestionIndex s + 1")
          case True
          from live_next_ends [OF s role host True, of now] assms u
          have "r = Ended_reply (leaderboard s)"
            and "w' = save_attempts (ended_session s) now (participants s)
                (w\<lparr>liveSessions := (liveSessions w)(code \<mapsto> ended_session s)\<rparr>)"
            by simp_all
          with u role s host True show ?thesis by blast
        next
          case False
          then have lt: "currentQuestionIndex s + 1 < int (length (questions s))" by simp
          show ?thesis
          proof (cases "nth_opt (questions s) (currentQuestionIndex s + 1)")
            case None
            from live_next_throws [OF s role host lt None, of now] assms u
            have "r = Error TypeError"
              and "w' = w\<lparr>liveSessions := (liveSessions w)(code \<mapsto>
                  s\<lparr>currentQuestionIndex := currentQuestionIndex s + 1, status := Question,
                    questionStartedAt := now\<rparr>)\<rparr>"
              by simp_all
            with u role s host lt None show ?thesis by blast
          next
            case (Some q)
            from live_next_asks [OF s role host lt Some, of now] assms u
            have "r = Question_reply (currentQuestionIndex s + 1) (length (questions s))"
              and "w' = w\<lparr>liveSessions := (liveSessions w)(code \<mapsto> asked_session s q now)\<rparr>"
              by simp_all
            with u role s host lt Some show ?thesis by blast
          qed
        qed
      qed
    qed
  qed
qed

lemma live_next_Ended:
  assumes "live_next code user now w = (Ended_reply lb, w')"
  shows "\<exists>s. liveSessions w code = Some s \<and>
           w' = save_attempts (ended_session s) now (participants s)
                  (w\<lparr>liveSessions := (liveSessions w)(code \<mapsto> ended_session s)\<rparr>)"
  using live_next_cases [OF assms] by auto

lemma live_end_accepts:
  assumes "liveSessions w code = Some s" "roleMiddleware [''teacher'', ''admin''] u"
  shows "live_end code (Some u) w =
     (Ended_reply (leaderboard s),
      w\<lparr>liveSessions := (liveSessions w)
           (code \<mapsto> broadcastSSE (s\<lparr>status := Ended\<rparr>) (Quiz_ended (leaderboard s))),
        timers := timers w @ [code]\<rparr>)"
  using assms by (simp add: live_end_def Let_def leaderboard_def)

lemma save_attempts_liveSessions [simp]:
  "liveSessions (save_attempts s now ps w) = liveSessions w"
  by (induction s now ps w rule: save_attempts.induct) (simp_all add: Let_def)

lemma save_attempts_next_id [simp]:
  "next_id (save_attempts s now ps w) = next_id w + length ps"
  by (induction s now ps w rule: save_attempts.induct) (simp_all add: Let_def)

lemma save_attempts_timers [simp]:
  "timers (save_attempts s now ps w) = timers w"
  by (induction s now ps w rule: save_attempts.induct) (simp_all add: Let_def)

lemma save_attempts_quizAttempts:
  "quizAttempts (save_attempts s now ps w) =
     quizAttempts w @ map (\<lambda>(i, uid, p). attempt_row s now (next_id w + i) uid p) (enumerate 0 ps)"
proof (induction s now ps w rule: save_attempts.induct)
  case (1 session now w)
  show ?case by simp
next
  case (2 session now uid participant ps w)
  show ?case
    by (simp add: Let_def 2 enumerate_Suc_eq [of 0] split_def comp_def)
qed

lemma save_attempts_studentAnswers:
  "studentAnswers (save_attempts s now ps w) =
     studentAnswers w @
     concat (map (\<lambda>(i, uid, p). answer_rows s (next_id w + i) (answers p)) (enumerate 0 ps))"
proof (induction s now ps w rule: save_attempts.induct)
  case (1 session now w)
  show ?case by simp
next
  case (2 session now uid participant ps w)
  show ?case
    by (simp add: Let_def 2 enumerate_Suc_eq [of 0] split_def comp_def)
qed

lemma attempt_row_ended [simp]:
  "attempt_row (ended_session s) now i uid p = attempt_row s now i uid p"
  by (simp add: attempt_row_def ended_session_def Let_def)

lemma answer_rows_ended [simp]:
  "answer_rows (ended_session s) i anss = answer_rows s i anss"
  by (simp add: answer_rows_def ended_session_def Let_def)

lemma next_attempt_rows:
  "attempt_row s now i uid p =
     \<lparr>a_id = i, a_quiz_id = quizId s, a_student_id = uid,
      a_total_marks = sum_list (map marks (questions s)), a_score = score p,
      a_percentage = (if sum_list (map marks (questions s)) > 0
         then of_int (Math_round (of_int (score p) / of_int (sum_list (map marks (questions s)))
                * 100 * 100)) / 100
         else 0),
      a_status = ''evaluated'', a_submitted_at = now\<rparr>"
  by (simp add: attempt_row_def Let_def)

lemma next_saves_attempts:
  assumes n: "live_next code user now w = (Ended_reply lb, w')" and s: "liveSessions w code = Some s"
  shows "quizAttempts w' = quizAttempts w @
           map (\<lambda>(i, uid, p). attempt_row s now (next_id w + i) uid p) (enumerate 0 (participants s))"
    and "studentAnswers w' = studentAnswers w @
           concat (map (\<lambda>(i, uid, p). answer_rows s (next_id w + i) (answers p))
                    (enumerate 0 (participants s)))"
proof -
  from live_next_Ended [OF n] s
  have w': "w' = save_attempts (ended_session s) now (participants s)
                  (w\<lparr>liveSessions := (liveSessions w)(code \<mapsto> ended_session s)\<rparr>)"
    by auto
  show "quizAttempts w' = quizAttempts w @
           map (\<lambda>(i, uid, p). attempt_row s now (next_id w + i) uid p) (enumerate 0 (participants s))"
    unfolding w' by (simp add: save_attempts_quizAttempts)
  show "studentAnswers w' = studentAnswers w @
           concat (map (\<lambda>(i, uid, p). answer_rows s (next_id w + i) (answers p))
                    (enumerate 0 (participants s)))"
    unfolding w' by (simp add: save_attempts_studentAnswers)
qed

section \<open>The leaderboard\<close>

lemma sort_by_score_desc: "sorted_wrt (\<lambda>p q. score q \<le> score p) (sort_by_score ps)"
proof -
  have "sorted (map (\<lambda>p. - score p) (sort_by_score ps))"
    unfolding sort_by_score_def by (rule sorted_sort_key)
  then show ?thesis by (simp add: sorted_map)
qed

lemma sort_by_score_stable:
  "filter (\<lambda>p. score p = k) (sort_by_score ps) = filter (\<lambda>p. score p = k) ps"
proof -
  have "filter (\<lambda>p. - score p = - k) (sort_by_score ps) = filter (\<lambda>p. - score p = - k) ps"
    unfolding sort_by_score_def by (rule sort_key_stable)
  then show ?thesis by simp
qed

lemma leaderboard_entries:
  "map (\<lambda>e. (lb_name e, lb_score e)) (leaderboard s) =
   map (\<lambda>p. (name p, score p)) (sort_by_score (map_values (participants s)))"
proof -
  have "map (\<lambda>e. (lb_name e, lb_score e)) (leaderboard s) =
        map ((\<lambda>p. (name p, score p)) \<circ> snd)
            (enumerate 0 (sort_by_score (map_values (participants s))))"
    by (simp add: leaderboard_def comp_def split_def)
  also have "\<dots> = map (\<lambda>p. (name p, score p))
                      (map snd (enumerate 0 (sort_by_score (map_values (participants s)))))"
    by (simp only: map_map)
  finally show ?thesis by (simp only: map_snd_enumerate)
qed

lemma leaderboard_ranks:
  "map rank (leaderboard s) = [1..<Suc (length (participants s))]"
proof -
  have "map rank (leaderboard s) =
        map (Suc \<circ> fst) (enumerate 0 (sort_by_score (map_values (participants s))))"
    by (simp add: leaderboard_def comp_def split_def)
  also have "\<dots> = map Suc (map fst (enumerate 0 (sort_by_score (map_values (participants s)))))"
    by (simp only: map_map)
  also have "\<dots> = map Suc [0..<length (participants s)]"
    by (simp add: map_fst_enumerate sort_by_score_def map_values_def del: map_map)
  also have "\<dots> = [1..<Suc (length (participants s))]"
    by (simp add: map_Suc_upt)
  finally show ?thesis .
qed

lemma live_end_reply:
  "live_end code user w = (Ended_reply lb, w') \<Longrightarrow>
     \<exists>s. liveSessions w code = Some s \<and> lb = leaderboard s"
  by (auto simp: live_end_def Let_def split: option.splits if_splits)

lemma live_next_reply:
  "live_next code user now w = (Ended_reply lb, w') \<Longrightarrow>
     \<exists>s. liveSessions w code = Some s \<and> lb = leaderboard s"
  by (auto simp: live_next_def Let_def split: option.splits if_splits)

lemma map_set_present: "map_get m k = Some v0 \<Longrightarrow> map fst (map_set m k v) = map fst m"
  by (induction m) (auto simp: map_get_def split: if_splits)

lemma join_inv_other:
  "c \<noteq> code \<Longrightarrow> join_inv (w\<lparr>liveSessions := (liveSessions w)(c \<mapsto> s')\<rparr>) code js = join_inv w code js"
  by (simp add: join_inv_def)

lemma join_inv_cong: "liveSessions w' = liveSessions w \<Longrightarrow> join_inv w' code js = join_inv w code js"
  by (simp add: join_inv_def)

lemma join_inv_same:
  "join_inv (w\<lparr>liveSessions := (liveSessions w)(code \<mapsto> s')\<rparr>) code js =
     (map fst (participants s') = js \<and> distinct js \<and>
      list_all (\<lambda>(k, p). userId p = k) (participants s'))"
  by (simp add: join_inv_def)

lemma join_inv_update:
  assumes "join_inv w code js" "liveSessions w c = Some s"
    "map fst (participants s') = map fst (participants s)"
    "list_all (\<lambda>(k, p). userId p = k) (participants s) \<Longrightarrow>
       list_all (\<lambda>(k, p). userId p = k) (participants s')"
  shows "join_inv (w\<lparr>liveSessions := (liveSessions w)(c \<mapsto> s')\<rparr>) code js"
proof (cases "c = code")
  case True
  with assms show ?thesis by (simp add: join_inv_def)
next
  case False
  with assms(1) show ?thesis by (simp add: join_inv_other)
qed

lemma answered_session_keys:
  assumes "map_get (participants s) uid = Some p"
  shows "map fst (participants (answered_session s uid p q ans now)) = map fst (participants s)"
  using assms by (simp add: answered_session_def Let_def map_set_present)

lemma answered_session_ids:
  assumes p: "map_get (participants s) uid = Some p"
    and a: "list_all (\<lambda>(k, p). userId p = k) (participants s)"
  shows "list_all (\<lambda>(k, p). userId p = k) (participants (answered_session s uid p q ans now))"
proof -
  from map_get_mem [OF p] a have "userId p = uid" by (auto simp: list_all_iff)
  with a show ?thesis
    by (simp add: answered_session_def Let_def list_all_map_set)
qed

lemma join_inv_answer:
  assumes inv: "join_inv w code js"
  shows "join_inv (snd (live_answer c user ans now w)) code js"
proof -
  obtain r w' where rw: "live_answer c user ans now w = (r, w')"
    by (cases "live_answer c user ans now w")
  from live_answer_cases [OF rw] show ?thesis
  proof (elim disjE exE conjE)
    fix e assume "w' = w"
    with inv rw show ?thesis by simp
  next
    fix u s p q
    assume s: "liveSessions w c = Some s"
      and p: "map_get (participants s) (jwt_userId u) = Some p"
      and w': "w' = w\<lparr>liveSessions := (liveSessions w)
                  (c \<mapsto> answered_session s (jwt_userId u) p q ans now)\<rparr>"
    have "join_inv w' code js" unfolding w'
      using inv s answered_session_keys [OF p] answered_session_ids [OF p]
      by (rule join_inv_update)
    with rw show ?thesis by simp
  qed
qed

lemma ended_session_participants [simp]: "participants (ended_session s) = participants s"
  by (simp add: ended_session_def Let_def)

lemma asked_session_participants [simp]: "participants (asked_session s q now) = participants s"
  by (simp add: asked_session_def Let_def)

lemma join_inv_next:
  assumes inv: "join_inv w code js"
  shows "join_inv (snd (live_next c user now w)) code js"
proof -
  obtain r w' where rw: "live_next c user now w = (r, w')" by (cases "live_next c user now w")
  from live_next_cases [OF rw] show ?thesis
  proof (elim disjE exE conjE)
    fix e assume "w' = w"
    with inv rw show ?thesis by simp
  next
    fix u s
    assume s: "liveSessions w c = Some s"
      and w': "w' = save_attempts (ended_session s) now (participants s)
                (w\<lparr>liveSessions := (liveSessions w)(c \<mapsto> ended_session s)\<rparr>)"
    have "join_inv (w\<lparr>liveSessions := (liveSessions w)(c \<mapsto> ended_session s)\<rparr>) code js"
      using inv s by (rule join_inv_update) simp_all
    then have "join_inv w' code js"
      unfolding w' by (subst join_inv_cong [OF save_attempts_liveSessions])
    with rw show ?thesis by simp
  next
    fix u s q
    assume s: "liveSessions w c = Some s"
      and w': "w' = w\<lparr>liveSessions := (liveSessions w)(c \<mapsto> asked_session s q now)\<rparr>"
    have "join_inv w' code js" unfolding w'
      using inv s by (rule join_inv_update) simp_all
    with rw show ?thesis by simp
  next
    fix u s
    assume s: "liveSessions w c = Some s"
      and w': "w' = w\<lparr>liveSessions := (liveSessions w)(c \<mapsto>
                  s\<lparr>currentQuestionIndex := currentQuestionIndex s + 1, status := Question,
                    questionStartedAt := now\<rparr>)\<rparr>"
    have "join_inv w' code js" unfolding w'
      using inv s by (rule join_inv_update) simp_all
    with rw show ?thesis by simp
  qed
qed

lemma join_inv_end: "join_inv w code js \<Longrightarrow> join_inv (snd (live_end c user w)) code js"
  by (auto simp: live_end_def Let_def join_inv_def split: option.splits)

lemma join_inv_stream: "join_inv w code js \<Longrightarrow> join_inv (snd (live_stream c user cid brk w)) code js"
  by (auto simp: live_stream_def Let_def join_inv_def split: option.splits)

lemma join_inv_close: "join_inv w code js \<Longrightarrow> join_inv (stream_close c cid w) code js"
  by (auto simp: stream_close_def join_inv_def split: option.splits)

lemma join_inv_timer:
  "join_inv w code js \<Longrightarrow>
     join_inv (timer_fires c w) code (if c = code \<and> c \<in> set (timers w) then [] else js)"
  by (auto simp: timer_fires_def join_inv_def split: option.splits)

lemma join_inv_start:
  assumes inv: "join_inv w code js"
  shows "join_inv (step (Start_live quiz_id user quiz_row qs draws) w) code
           (log_step (Start_live quiz_id user quiz_row qs draws) w code js)"
proof (cases "start_live quiz_id user quiz_row qs draws w")
  case None
  with inv show ?thesis by (simp add: log_step_def)
next
  case (Some rw)
  obtain r w' where rw: "rw = (r, w')" by (cases rw)
  show ?thesis
  proof (cases "\<exists>c n t. r = Started c n t")
    case False
    with Some rw have "w' = w"
      by (auto simp: start_live_def Let_def split: option.splits if_splits)
    moreover from False have "log_step (Start_live quiz_id user quiz_row qs draws) w code js = js"
      using Some rw by (cases r) (simp_all add: log_step_def)
    ultimately show ?thesis using inv Some rw by simp
  next
    case True
    then obtain c n t where r: "r = Started c n t" by blast
    with Some rw obtain s' where free: "liveSessions w c = None"
      and w': "w' = w\<lparr>liveSessions := (liveSessions w)(c \<mapsto> s')\<rparr>"
      and ps: "participants s' = []"
      by (auto simp: start_live_def Let_def find_Some_iff split: option.splits if_splits)
    show ?thesis
    proof (cases "c = code")
      case True
      with Some rw r w' ps show ?thesis by (simp add: log_step_def join_inv_def)
    next
      case False
      with Some rw r w' inv show ?thesis by (simp add: log_step_def join_inv_other)
    qed
  qed
qed

lemma join_inv_join:
  assumes inv: "join_inv w code js"
  shows "join_inv (step (Join c user n) w) code (log_step (Join c user n) w code js)"
proof (cases user)
  case None
  with inv show ?thesis by (simp add: log_step_def live_join_def)
next
  case u: (Some u)
  show ?thesis
  proof (cases "liveSessions w c")
    case None
    with inv u show ?thesis by (simp add: log_step_def live_join_def)
  next
    case s: (Some s)
    show ?thesis
    proof (cases "status s = Ended")
      case True
      with inv u s show ?thesis by (simp add: log_step_def live_join_ended)
    next
      case st: False
      show ?thesis
      proof (cases "map_has (participants s) (jwt_userId u)")
        case reg: True
        then have mem: "jwt_userId u \<in> set (map fst (participants s))" by (simp add: map_has_def)
        have same: "step (Join c user n) w = w"
          using u s st reg by (simp add: live_join_registered)
        have "log_step (Join c user n) w code js = js"
        proof (cases "c = code")
          case True
          with inv s have "js = map fst (participants s)" by (simp add: join_inv_def)
          with mem have "jwt_userId u \<in> set js" by simp
          with u s st reg show ?thesis by (simp add: log_step_def live_join_registered)
        next
          case False
          with u s st reg show ?thesis by (simp add: log_step_def live_join_registered)
        qed
        with same inv show ?thesis by simp
      next
        case new: False
        let ?uid = "jwt_userId u"
        from live_join_new [OF s st new, of n] u
        have same: "step (Join c user n) w =
            w\<lparr>liveSessions := (liveSessions w)(c \<mapsto> joined_session s ?uid n)\<rparr>"
          and r: "fst (live_join c user n w) =
            Joined (status s) (map_size (participants s) + 1) (length (questions s))"
          by simp_all
        show ?thesis
        proof (cases "c = code")
          case True
          with inv s have js: "js = map fst (participants s)" "distinct js"
            "list_all (\<lambda>(k, p). userId p = k) (participants s)"
            by (simp_all add: join_inv_def)
          from new js have notin: "?uid \<notin> set js" by (simp add: map_has_def)
          from u r True notin have lg: "log_step (Join c user n) w code js = js @ [?uid]"
            by (simp add: log_step_def)
          show ?thesis unfolding same lg using True js notin new
            by (simp add: join_inv_def map_set_absent new_participant_def)
        next
          case False
          with u r have lg: "log_step (Join c user n) w code js = js"
            by (simp add: log_step_def)
          show ?thesis unfolding same lg using False inv by (simp add: join_inv_other)
        qed
      qed
    qed
  qed
qed

lemma join_inv_step: "join_inv w code js \<Longrightarrow> join_inv (step x w) code (log_step x w code js)"
proof (cases x)
  case (Start_live quiz_id user quiz_row qs draws)
  assume "join_inv w code js"
  then show ?thesis unfolding Start_live by (rule join_inv_start)
next
  case (Join c user n)
  assume "join_inv w code js"
  then show ?thesis unfolding Join by (rule join_inv_join)
next
  case (Timer c)
  assume "join_inv w code js"
  then show ?thesis using join_inv_timer [of w code js c] by (simp add: Timer log_step_def)
qed (simp_all add: log_step_def join_inv_next join_inv_answer join_inv_end join_inv_stream join_inv_close)

lemma join_inv_run:
  "join_inv w code js \<Longrightarrow> join_inv (run xs w) code (join_order_from xs w code js)"
  by (induction xs arbitrary: w js) (simp_all add: run_def join_inv_step)

lemma join_inv_init: "join_inv init_world code []"
  by (simp add: join_inv_def init_world_def)

lemma keys_filter:
  "distinct (map fst m) \<Longrightarrow> list_all (\<lambda>(k, p). userId p = k) m \<Longrightarrow>
     map userId (filter P (map snd m)) =
     filter (\<lambda>uid. case map_of m uid of None \<Rightarrow> False | Some p \<Rightarrow> P p) (map fst m)"
proof (induction m)
  case Nil
  show ?case by simp
next
  case (Cons a m)
  obtain k p where a: "a = (k, p)" by (cases a)
  from Cons.prems a have k: "k \<notin> fst ` set m" and d: "distinct (map fst m)"
    and id: "userId p = k" and rest: "list_all (\<lambda>(k, p). userId p = k) m" by auto
  have "filter (\<lambda>uid. case map_of (a # m) uid of None \<Rightarrow> False | Some p \<Rightarrow> P p) (map fst m) =
        filter (\<lambda>uid. case map_of m uid of None \<Rightarrow> False | Some p \<Rightarrow> P p) (map fst m)"
    using k by (intro filter_cong) (auto simp: a)
  with Cons.IH [OF d rest] id show ?case by (simp add: a)
qed

lemma run_join_order:
  assumes "liveSessions (run ops init_world) code = Some s"
  shows "map fst (participants s) = join_order ops code"
    and "distinct (map fst (participants s))"
    and "list_all (\<lambda>(k, p). userId p = k) (participants s)"
  using join_inv_run [OF join_inv_init, of ops code] assms
  by (simp_all add: join_inv_def join_order_def)

lemma run_user_ids:
  assumes "liveSessions (run ops init_world) code = Some s"
  shows "map userId (map_values (participants s)) = join_order ops code"
proof -
  from run_join_order(3) [OF assms]
  have "map userId (map snd (participants s)) = map fst (participants s)"
    by (induction "participants s") (auto simp: list_all_iff)
  with run_join_order(1) [OF assms] show ?thesis by (simp add: map_values_def)
qed

lemma run_ties:
  assumes s: "liveSessions (run ops init_world) code = Some s"
  shows "map userId (filter (\<lambda>p. score p = k) (sort_by_score (map_values (participants s)))) =
         filter (\<lambda>uid. case map_get (participants s) uid of None \<Rightarrow> False | Some p \<Rightarrow> score p = k)
           (join_order ops code)"
proof -
  have "map userId (filter (\<lambda>p. score p = k) (sort_by_score (map_values (participants s)))) =
        map userId (filter (\<lambda>p. score p = k) (map snd (participants s)))"
    by (simp add: sort_by_score_stable map_values_def)
  also have "\<dots> = filter (\<lambda>uid. case map_of (participants s) uid of None \<Rightarrow> False | Some p \<Rightarrow> score p = k)
                       (map fst (participants s))"
    by (rule keys_filter [OF run_join_order(2) [OF s] run_join_order(3) [OF s]])
  finally show ?thesis by (simp add: run_join_order(1) [OF s] map_get_def)
qed

lemma ex_tie_run:
  "join_order ex_tie_ops ex_code = [''A'', ''B'', ''C'', ''D'']
   \<and> scoreboard ex_tie_world ex_code = [(''A'', 30, 1), (''B'', 50, 1), (''C'', 50, 1), (''D'', 10, 2)]
   \<and> fst (live_next ex_code ex_host 12000 ex_tie_world) = Ended_reply ex_ranking
   \<and> fst (live_end ex_code ex_host ex_tie_world) = Ended_reply ex_ranking"
  by code_simp

lemma run_next_leaderboard:
  assumes "liveSessions w code = Some s" "roleMiddleware [''teacher'', ''admin''] u"
    "teacherId s = jwt_userId u" "int (length (questions s)) \<le> currentQuestionIndex s + 1"
  shows "fst (live_next code (Some u) now w) = Ended_reply (leaderboard s)"
  by (simp add: live_next_ends [OF assms])

lemma run_end_leaderboard:
  assumes "liveSessions w code = Some s" "roleMiddleware [''teacher'', ''admin''] u"
  shows "fst (live_end code (Some u) w) = Ended_reply (leaderboard s)"
  by (simp add: live_end_accepts [OF assms])

text \<open>
  C8. In every state that a run of requests reaches, the participants of a live
  session are stored in the order in which they joined, whatever they answered
  and whenever. The leaderboard that \<open>next\<close> sends when the quiz is over, and that
  \<open>end\<close> sends, lists them by descending score; the sort is stable and looks at
  nothing but the score, so the participants with the same score appear in the
  order in which they joined; the ranks are 1, 2, ... In the example run, with
  join order A, B, C, D and scores 30, 50, 50, 10, where C answered before B, both
  routes send the ranking B, C, A, D.
\<close>

theorem leaderboard_order:
  assumes "liveSessions (run ops init_world) code = Some s"
  shows "map userId (map_values (participants s)) = join_order ops code
   \<and> (\<forall>k. map userId (filter (\<lambda>p. score p = k) (sort_by_score (map_values (participants s)))) =
          filter (\<lambda>uid. case map_get (participants s) uid of None \<Rightarrow> False | Some p \<Rightarrow> score p = k)
            (join_order ops code))
   \<and> sorted_wrt (\<lambda>p q. score q \<le> score p) (sort_by_score ps)
   \<and> (\<forall>k. filter (\<lambda>p. score p = k) (sort_by_score ps) = filter (\<lambda>p. score p = k) ps)
   \<and> map (\<lambda>e. (lb_name e, lb_score e)) (leaderboard s) =
       map (\<lambda>p. (name p, score p)) (sort_by_score (map_values (participants s)))
   \<and> map rank (leaderboard s) = [1..<Suc (length (participants s))]
   \<and> (roleMiddleware [''teacher'', ''admin''] u \<and> teacherId s = jwt_userId u \<and>
        int (length (questions s)) \<le> currentQuestionIndex s + 1 \<longrightarrow>
        fst (live_next code (Some u) now (run ops init_world)) = Ended_reply (leaderboard s))
   \<and> (roleMiddleware [''teacher'', ''admin''] u \<longrightarrow>
        fst (live_end code (Some u) (run ops init_world)) = Ended_reply (leaderboard s))
   \<and> (live_next code user now (run ops init_world) = (Ended_reply lb, w') \<longrightarrow> lb = leaderboard s)
   \<and> (live_end code user (run ops init_world) = (Ended_reply lb, w') \<longrightarrow> lb = leaderboard s)
   \<and> join_order ex_tie_ops ex_code = [''A'', ''B'', ''C'', ''D'']
   \<and> scoreboard ex_tie_world ex_code = [(''A'', 30, 1), (''B'', 50, 1), (''C'', 50, 1), (''D'', 10, 2)]
   \<and> fst (live_next ex_code ex_host 12000 ex_tie_world) = Ended_reply ex_ranking
   \<and> fst (live_end ex_code ex_host ex_tie_world) = Ended_reply ex_ranking"
proof -
  note s = assms
  have 1: "map userId (map_values (participants s)) = join_order ops code"
    by (rule run_user_ids [OF s])
  have 2: "\<forall>k. map userId (filter (\<lambda>p. score p = k) (sort_by_score (map_values (participants s)))) =
          filter (\<lambda>uid. case map_get (participants s) uid of None \<Rightarrow> False | Some p \<Rightarrow> score p = k)
            (join_order ops code)"
    using run_ties [OF s] by blast
  have 3: "\<forall>k. filter (\<lambda>p. score p = k) (sort_by_score ps) = filter (\<lambda>p. score p = k) ps"
    using sort_by_score_stable [of _ ps] by blast
  have 4: "roleMiddleware [''teacher'', ''admin''] u \<and> teacherId s = jwt_userId u \<and>
        int (length (questions s)) \<le> currentQuestionIndex s + 1 \<longrightarrow>
        fst (live_next code (Some u) now (run ops init_world)) = Ended_reply (leaderboard s)"
    using run_next_leaderboard [OF s] by blast
  have 5: "roleMiddleware [''teacher'', ''admin''] u \<longrightarrow>
        fst (live_end code (Some u) (run ops init_world)) = Ended_reply (leaderboard s)"
    using run_end_leaderboard [OF s] by blast
  have 6: "live_next code user now (run ops init_world) = (Ended_reply lb, w') \<longrightarrow> lb = leaderboard s"
    using live_next_reply [of code user now "run ops init_world" lb w'] s by auto
  have 7: "live_end code user (run ops init_world) = (Ended_reply lb, w') \<longrightarrow> lb = leaderboard s"
    using live_end_reply [of code user "run ops init_world" lb w'] s by auto
  from 1 2 sort_by_score_desc [of ps] 3 leaderboard_entries [of s] leaderboard_ranks [of s]
    4 5 6 7 ex_tie_run
  show ?thesis by (intro conjI) blast+
qed

theorem leaderboard_order_witness:
  "liveSessions ex_tie_world ex_code = Some (the (liveSessions ex_tie_world ex_code))
   \<and> roleMiddleware [''teacher'', ''admin''] ex_teacher
   \<and> teacherId (the (liveSessions ex_tie_world ex_code)) = jwt_userId ex_teacher
   \<and> int (length (questions (the (liveSessions ex_tie_world ex_code))))
       \<le> currentQuestionIndex (the (liveSessions ex_tie_world ex_code)) + 1
   \<and> map userId (map_values (participants (the (liveSessions ex_tie_world ex_code)))) =
       [''A'', ''B'', ''C'', ''D'']
   \<and> map score (map_values (participants (the (liveSessions ex_tie_world ex_code)))) =
       [30, 50, 50, 10]
   \<and> map userId (filter (\<lambda>p. score p = 50)
        (sort_by_score (map_values (participants (the (liveSessions ex_tie_world ex_code)))))) =
       [''B'', ''C'']
   \<and> fst (live_next ex_code (Some ex_teacher) 12000 ex_tie_world) = Ended_reply ex_ranking
   \<and> fst (live_end ex_code (Some ex_teacher) ex_tie_world) = Ended_reply ex_ranking"
proof -
  let ?S = "the (liveSessions ex_tie_world ex_code)"
  have h: "liveSessions (run ex_tie_ops init_world) ex_code = Some ?S"
    unfolding ex_tie_world_def by code_simp
  have r: "roleMiddleware [''teacher'', ''admin''] ex_teacher \<and>
      teacherId ?S = jwt_userId ex_teacher \<and>
      int (length (questions ?S)) \<le> currentQuestionIndex ?S + 1"
    by code_simp
  have jo: "join_order ex_tie_ops ex_code = [''A'', ''B'', ''C'', ''D'']" by code_simp
  have sc: "map score (map_values (participants ?S)) = [30, 50, 50, 10]" by code_simp
  have f: "filter (\<lambda>uid. case map_get (participants ?S) uid of None \<Rightarrow> False | Some p \<Rightarrow> score p = 50)
             [''A'', ''B'', ''C'', ''D''] = [''B'', ''C'']"
    by code_simp
  have lb: "leaderboard ?S = ex_ranking" by code_simp
  note t = leaderboard_order [OF h, where u = ex_teacher and now = 12000]
  from t have ids: "map userId (map_values (participants ?S)) = join_order ex_tie_ops ex_code"
    by blast
  from t have ties: "map userId (filter (\<lambda>p. score p = 50) (sort_by_score (map_values (participants ?S)))) =
      filter (\<lambda>uid. case map_get (participants ?S) uid of None \<Rightarrow> False | Some p \<Rightarrow> score p = 50)
        (join_order ex_tie_ops ex_code)"
    by blast
  from t r have n: "fst (live_next ex_code (Some ex_teacher) 12000 (run ex_tie_ops init_world)) =
      Ended_reply (leaderboard ?S)"
    by blast
  from t r have e: "fst (live_end ex_code (Some ex_teacher) (run ex_tie_ops init_world)) =
      Ended_reply (leaderboard ?S)"
    by blast
  from h have h': "liveSessions ex_tie_world ex_code = Some ?S"
    by (simp only: ex_tie_world_def [symmetric])
  from ids have ids': "map userId (map_values (participants ?S)) = [''A'', ''B'', ''C'', ''D'']"
    by (simp only: jo)
  from ties have ties': "map userId (filter (\<lambda>p. score p = 50)
      (sort_by_score (map_values (participants ?S)))) = [''B'', ''C'']"
    by (simp only: jo f)
  from n have n': "fst (live_next ex_code (Some ex_teacher) 12000 ex_tie_world) = Ended_reply ex_ranking"
    by (simp only: lb ex_tie_world_def [symmetric])
  from e have e': "fst (live_end ex_code (Some ex_teacher) ex_tie_world) = Ended_reply ex_ranking"
    by (simp only: lb ex_tie_world_def [symmetric])
  from h' r ids' sc ties' n' e' show ?thesis by (intro conjI) blast+
qed

section \<open>Joining twice\<close>

text \<open>
  C9. Joining is idempotent for a student. On a session that has not ended, a
  second \<open>join\<close> by the same student gives the same reply, the current summary of
  the session, and leaves the state as the first left it; a student who is already
  registered is left as registered, with score and answer records untouched; a new
  student is appended once, and the keys of the participants stay distinct. On a
  session that has ended, \<open>join\<close> is refused with "Session has ended".
\<close>

theorem join_idempotent:
  assumes "liveSessions w code = Some s"
  shows "(status s = Ended \<longrightarrow> live_join code (Some u) n w = (Error Session_has_ended, w))
   \<and> (status s \<noteq> Ended \<longrightarrow>
        live_join code (Some u) n' (snd (live_join code (Some u) n w)) = live_join code (Some u) n w)
   \<and> (status s \<noteq> Ended \<and> map_has (participants s) (jwt_userId u) \<longrightarrow>
        live_join code (Some u) n w =
          (Joined (status s) (map_size (participants s)) (length (questions s)), w))
   \<and> (status s \<noteq> Ended \<and> \<not> map_has (participants s) (jwt_userId u) \<longrightarrow>
        live_join code (Some u) n w =
          (Joined (status s) (map_size (participants s) + 1) (length (questions s)),
           w\<lparr>liveSessions := (liveSessions w)(code \<mapsto> joined_session s (jwt_userId u) n)\<rparr>)
        \<and> participants (joined_session s (jwt_userId u) n) =
            participants s @ [(jwt_userId u, new_participant (jwt_userId u) n)])
   \<and> (status s \<noteq> Ended \<and> distinct (map fst (participants s)) \<longrightarrow>
        (\<exists>s2. liveSessions (snd (live_join code (Some u) n' (snd (live_join code (Some u) n w)))) code
                = Some s2 \<and>
              distinct (map fst (participants s2)) \<and> map_has (participants s2) (jwt_userId u)))"
proof (intro conjI impI)
  assume "status s = Ended"
  with assms show "live_join code (Some u) n w = (Error Session_has_ended, w)"
    by (rule live_join_ended)
next
  assume "status s \<noteq> Ended"
  with assms show "live_join code (Some u) n' (snd (live_join code (Some u) n w)) =
      live_join code (Some u) n w"
    by (rule live_join_twice)
next
  assume "status s \<noteq> Ended \<and> map_has (participants s) (jwt_userId u)"
  with assms show "live_join code (Some u) n w =
          (Joined (status s) (map_size (participants s)) (length (questions s)), w)"
    by (simp add: live_join_registered)
next
  assume a: "status s \<noteq> Ended \<and> \<not> map_has (participants s) (jwt_userId u)"
  with assms show "live_join code (Some u) n w =
          (Joined (status s) (map_size (participants s) + 1) (length (questions s)),
           w\<lparr>liveSessions := (liveSessions w)(code \<mapsto> joined_session s (jwt_userId u) n)\<rparr>)"
    by (simp add: live_join_new)
  from a show "participants (joined_session s (jwt_userId u) n) =
            participants s @ [(jwt_userId u, new_participant (jwt_userId u) n)]"
    by (simp add: map_set_absent)
next
  assume a: "status s \<noteq> Ended \<and> distinct (map fst (participants s))"
  then have st: "status s \<noteq> Ended" and d: "distinct (map fst (participants s))" by simp_all
  have tw: "live_join code (Some u) n' (snd (live_join code (Some u) n w)) = live_join code (Some u) n w"
    using assms st by (rule live_join_twice)
  show "\<exists>s2. liveSessions (snd (live_join code (Some u) n' (snd (live_join code (Some u) n w)))) code
                = Some s2 \<and>
              distinct (map fst (participants s2)) \<and> map_has (participants s2) (jwt_userId u)"
  proof (cases "map_has (participants s) (jwt_userId u)")
    case True
    with assms st d show ?thesis unfolding tw by (simp add: live_join_registered)
  next
    case False
    with assms st d show ?thesis unfolding tw by (simp add: live_join_new map_set_distinct)
  qed
qed

theorem join_idempotent_witness:
  "liveSessions ex_board_world ex_code = Some ex_board
   \<and> map_get (participants ex_board) ''B'' =
       Some \<lparr>userId = ''B'', name = ''B'', score = 50, answers = []\<rparr>
   \<and> live_join ex_code (Some ex_rejoin) (Some ''Bea'') ex_board_world =
       (Joined Question 4 2, ex_board_world)"
proof -
  have h: "liveSessions ex_board_world ex_code = Some ex_board"
    by (simp add: ex_board_world_def)
  have g: "map_get (participants ex_board) ''B'' =
       Some \<lparr>userId = ''B'', name = ''B'', score = 50, answers = []\<rparr>"
    by (simp add: ex_board_def map_get_def ex_player_def)
  have st: "status ex_board \<noteq> Ended \<and> map_has (participants ex_board) (jwt_userId ex_rejoin)"
    by (simp add: ex_board_def map_has_def ex_player_def ex_rejoin_def)
  have c: "status ex_board = Question" "map_size (participants ex_board) = 4"
    "length (questions ex_board) = 2"
    by (simp_all add: ex_board_def map_size_def)
  from join_idempotent [OF h, of ex_rejoin "Some ''Bea''"] st
  have "live_join ex_code (Some ex_rejoin) (Some ''Bea'') ex_board_world =
          (Joined (status ex_board) (map_size (participants ex_board)) (length (questions ex_board)),
           ex_board_world)"
    by blast
  with h g c show ?thesis by simp
qed

section \<open>A second answer to the same question\<close>

lemma answered_session_has_answered:
  "\<exists>p'. map_get (participants (answered_session s uid p q ans now)) uid = Some p' \<and>
        has_answered (currentQuestionIndex s) p'"
  by (simp add: answered_session_def Let_def has_answered_def)

lemma already_answered:
  assumes "liveSessions w code = Some s" "status s = Question"
    "map_get (participants s) (jwt_userId u) = Some p"
    "has_answered (currentQuestionIndex s) p"
  shows "live_answer code (Some u) a t w = (Error Already_answered, w)"
  using assms by (simp add: live_answer_def)

text \<open>
  C6. When a participant's answer to the active question has been accepted, a
  second answer by the same participant to that question is refused with "Already
  answered", and the state after the refusal is the state before it: no answer
  record is added, the first record and the score stay as they are. More
  generally, the answer of a participant who holds a record for the active
  question is refused in this way.
\<close>

theorem second_answer_rejected:
  "(live_answer code user a1 t1 w = (Answered c sc, w') \<longrightarrow>
      live_answer code user a2 t2 w' = (Error Already_answered, w'))
   \<and> (liveSessions w code = Some s \<and> status s = Question \<and>
      map_get (participants s) (jwt_userId u) = Some p \<and>
      has_answered (currentQuestionIndex s) p \<longrightarrow>
      live_answer code (Some u) a2 t2 w = (Error Already_answered, w))"
proof (intro conjI impI)
  assume first: "live_answer code user a1 t1 w = (Answered c sc, w')"
  from live_answer_cases [OF first] obtain v s0 p0 q where
    v: "user = Some v"
    and w': "w' = w\<lparr>liveSessions := (liveSessions w)
                    (code \<mapsto> answered_session s0 (jwt_userId v) p0 q a1 t1)\<rparr>"
    and st: "status s0 = Question"
    by auto
  from answered_session_has_answered [of s0 "jwt_userId v" p0 q a1 t1] obtain p' where
    p': "map_get (participants (answered_session s0 (jwt_userId v) p0 q a1 t1)) (jwt_userId v) = Some p'"
      "has_answered (currentQuestionIndex s0) p'" by blast
  show "live_answer code user a2 t2 w' = (Error Already_answered, w')"
    unfolding v w' using st p' by (simp add: live_answer_def)
next
  assume "liveSessions w code = Some s \<and> status s = Question \<and>
      map_get (participants s) (jwt_userId u) = Some p \<and>
      has_answered (currentQuestionIndex s) p"
  then show "live_answer code (Some u) a2 t2 w = (Error Already_answered, w)"
    by (simp add: already_answered)
qed

theorem second_answer_rejected_witness:
  "fst (live_answer ex_code ex_student (Some ''b'') 3000 ex_asked) = Answered True 1
   \<and> live_answer ex_code ex_student (Some ''a'') 4000
        (snd (live_answer ex_code ex_student (Some ''b'') 3000 ex_asked)) =
      (Error Already_answered, snd (live_answer ex_code ex_student (Some ''b'') 3000 ex_asked))"
proof -
  have f: "fst (live_answer ex_code ex_student (Some ''b'') 3000 ex_asked) = Answered True 1"
    by code_simp
  then have "live_answer ex_code ex_student (Some ''b'') 3000 ex_asked =
      (Answered True 1, snd (live_answer ex_code ex_student (Some ''b'') 3000 ex_asked))"
    by (simp add: prod_eq_iff)
  with second_answer_rejected [of ex_code ex_student "Some ''b''" 3000 ex_asked True 1
      "snd (live_answer ex_code ex_student (Some ''b'') 3000 ex_asked)" "Some ''a''" 4000]
    f show ?thesis by blast
qed

section \<open>Scoring: the live route and the submission route\<close>

lemma submit_score_exact:
  "question_type q = ''mcq'' \<or> question_type q = ''true_false'' \<Longrightarrow>
     submit_score parse q a = Inr (live_isCorrect q (Some a), live_marksAwarded q (Some a))"
  by (simp add: submit_score_def live_isCorrect_def live_marksAwarded_def Let_def)

lemma submit_score_short:
  "question_type q \<notin> set [''mcq'', ''true_false'', ''fill_in_blank'', ''matching'', ''ordering''] \<Longrightarrow>
     \<exists>m. submit_score parse q a = Inr (live_isCorrect q (Some a), m) \<and>
         (live_isCorrect q (Some a) \<longrightarrow> m = marks q)"
  by (simp add: submit_score_def live_isCorrect_def Let_def)

lemma submit_score_short_marks:
  "question_type q \<notin> set [''mcq'', ''true_false'', ''fill_in_blank'', ''matching'', ''ordering''] \<Longrightarrow>
     \<exists>m. submit_score parse q a = Inr (live_isCorrect q (Some a), m) \<and>
         (live_isCorrect q (Some a) \<longrightarrow> m = marks q) \<and>
         (\<not> live_isCorrect q (Some a) \<longrightarrow> m = 0 \<or> m = \<lceil>of_int (marks q) * (1 / 2 :: rat)\<rceil>)"
  by (simp add: submit_score_def live_isCorrect_def Let_def)

lemma live_answer_full_or_nothing:
  assumes "live_answer code user ans t w = (Answered c sc, w')" "liveSessions w code = Some s"
  shows "\<exists>v p0 q. user = Some v \<and> map_get (participants s) (jwt_userId v) = Some p0 \<and>
           nth_opt (questions s) (currentQuestionIndex s) = Some q \<and>
           c = live_isCorrect q ans \<and> sc = score p0 + live_marksAwarded q ans \<and>
           live_marksAwarded q ans = (if c then marks q else 0)"
  using live_answer_cases [OF assms(1)] assms(2) by (auto simp: live_marksAwarded_def)

text \<open>
  C3 (as stated): live mode and the submission route should give the same verdict
  and the same marks for every question. They do not where the submission route
  gives partial credit: for the short answer \<open>photosynthesis\<close> and for two matched
  pairs out of three, both routes say "incorrect", the submission route awards 2
  of the 3 marks, live mode awards nothing.
\<close>

theorem live_and_submit_scoring_differ:
  "submit_score ex_parse ex_short ''photosynthesis'' = Inr (False, 2)
   \<and> (live_isCorrect ex_short (Some ''photosynthesis''),
       live_marksAwarded ex_short (Some ''photosynthesis'')) = (False, 0)
   \<and> submit_score ex_parse ex_matching ex_two_pairs = Inr (False, 2)
   \<and> (live_isCorrect ex_matching (Some ex_two_pairs),
       live_marksAwarded ex_matching (Some ex_two_pairs)) = (False, 0)"
  by code_simp

text \<open>
  C3 (amended). Live mode awards full marks or nothing: an accepted live answer
  adds the marks of the active question to the score when its verdict is correct,
  and nothing otherwise. For \<open>mcq\<close> and \<open>true_false\<close> questions the live route and
  the submission route give the same verdict and the same marks, for every
  answer. For a short-answer question (any other type than the five named ones)
  they give the same verdict, and the same marks when the answer is correct; for
  an incorrect short answer live mode awards nothing, where the submission route
  awards nothing or half the marks, rounded up.
\<close>

theorem live_and_submit_scoring_agree:
  "(question_type q = ''mcq'' \<or> question_type q = ''true_false'' \<longrightarrow>
      submit_score parse q a = Inr (live_isCorrect q (Some a), live_marksAwarded q (Some a)))
   \<and> (question_type q \<notin> set [''mcq'', ''true_false'', ''fill_in_blank'', ''matching'', ''ordering''] \<longrightarrow>
      (\<exists>m. submit_score parse q a = Inr (live_isCorrect q (Some a), m) \<and>
           (live_isCorrect q (Some a) \<longrightarrow> m = marks q \<and> live_marksAwarded q (Some a) = marks q) \<and>
           (\<not> live_isCorrect q (Some a) \<longrightarrow>
              (m = 0 \<or> m = \<lceil>of_int (marks q) * (1 / 2 :: rat)\<rceil>) \<and>
              live_marksAwarded q (Some a) = 0)))
   \<and> (live_answer code user ans t w = (Answered c sc, w') \<and> liveSessions w code = Some s \<longrightarrow>
      (\<exists>v p0 q'. user = Some v \<and> map_get (participants s) (jwt_userId v) = Some p0 \<and>
           nth_opt (questions s) (currentQuestionIndex s) = Some q' \<and>
           c = live_isCorrect q' ans \<and> sc = score p0 + live_marksAwarded q' ans \<and>
           live_marksAwarded q' ans = (if c then marks q' else 0)))"
proof (intro conjI impI)
  assume "question_type q = ''mcq'' \<or> question_type q = ''true_false''"
  then show "submit_score parse q a = Inr (live_isCorrect q (Some a), live_marksAwarded q (Some a))"
    by (rule submit_score_exact)
next
  assume "question_type q \<notin> set [''mcq'', ''true_false'', ''fill_in_blank'', ''matching'', ''ordering'']"
  from submit_score_short_marks [OF this, of parse a]
  show "\<exists>m. submit_score parse q a = Inr (live_isCorrect q (Some a), m) \<and>
           (live_isCorrect q (Some a) \<longrightarrow> m = marks q \<and> live_marksAwarded q (Some a) = marks q) \<and>
           (\<not> live_isCorrect q (Some a) \<longrightarrow>
              (m = 0 \<or> m = \<lceil>of_int (marks q) * (1 / 2 :: rat)\<rceil>) \<and>
              live_marksAwarded q (Some a) = 0)"
    by (auto simp: live_marksAwarded_def)
next
  assume "live_answer code user ans t w = (Answered c sc, w') \<and> liveSessions w code = Some s"
  then show "\<exists>v p0 q'. user = Some v \<and> map_get (participants s) (jwt_userId v) = Some p0 \<and>
           nth_opt (questions s) (currentQuestionIndex s) = Some q' \<and>
           c = live_isCorrect q' ans \<and> sc = score p0 + live_marksAwarded q' ans \<and>
           live_marksAwarded q' ans = (if c then marks q' else 0)"
    using live_answer_full_or_nothing [of code user ans t w c sc w' s] by blast
qed

theorem live_and_submit_scoring_agree_witness:
  "question_type ex_q1 = ''mcq''
   \<and> submit_score ex_no_parse ex_q1 '' b '' = Inr (True, 1)
   \<and> live_isCorrect ex_q1 (Some '' b '') \<and> live_marksAwarded ex_q1 (Some '' b '') = 1
   \<and> question_type ex_short \<notin> set [''mcq'', ''true_false'', ''fill_in_blank'', ''matching'', ''ordering'']
   \<and> \<not> live_isCorrect ex_short (Some ''photosynthesis'')
   \<and> (\<exists>m. submit_score ex_parse ex_short ''photosynthesis'' = Inr (False, m) \<and> (m = 0 \<or> m = 2))
   \<and> live_marksAwarded ex_short (Some ''photosynthesis'') = 0"
proof -
  have t: "question_type ex_q1 = ''mcq''" by (simp add: ex_q1_def)
  have v: "live_isCorrect ex_q1 (Some '' b '')" by code_simp
  have m: "live_marksAwarded ex_q1 (Some '' b '') = 1" by code_simp
  from live_and_submit_scoring_agree [of ex_q1 ex_no_parse "'' b ''", THEN conjunct1] t
  have 1: "submit_score ex_no_parse ex_q1 '' b '' =
          Inr (live_isCorrect ex_q1 (Some '' b ''), live_marksAwarded ex_q1 (Some '' b ''))"
    by blast
  have ts: "question_type ex_short \<notin> set [''mcq'', ''true_false'', ''fill_in_blank'', ''matching'', ''ordering'']"
    by (simp add: ex_short_def)
  have vs: "\<not> live_isCorrect ex_short (Some ''photosynthesis'')" by code_simp
  have half: "\<lceil>of_int (marks ex_short) * (1 / 2 :: rat)\<rceil> = 2" by code_simp
  from live_and_submit_scoring_agree [of ex_short ex_parse "''photosynthesis''",
      THEN conjunct2, THEN conjunct1] ts vs half
  have 2: "(\<exists>m. submit_score ex_parse ex_short ''photosynthesis'' = Inr (False, m) \<and>
             (m = 0 \<or> m = 2))
           \<and> live_marksAwarded ex_short (Some ''photosynthesis'') = 0"
    by auto
  from t v m 1 ts vs 2 show ?thesis by simp
qed

text \<open>
  The verdicts themselves differ where the submission route judges by the type of
  the question and the live route compares the answer strings: \<open>water\<close>, an
  acceptable answer of the fill-in-blank example, and the canonical order written
  with spaces are correct for the submission route and incorrect in live mode.
\<close>

lemma live_verdict_compares_strings:
  "submit_score ex_parse ex_blank ''water'' = Inr (True, 2)
   \<and> (live_isCorrect ex_blank (Some ''water''), live_marksAwarded ex_blank (Some ''water'')) = (False, 0)
   \<and> submit_score ex_parse ex_ordering ''[0, 1, 2, 3]'' = Inr (True, 3)
   \<and> (live_isCorrect ex_ordering (Some ''[0, 1, 2, 3]''),
       live_marksAwarded ex_ordering (Some ''[0, 1, 2, 3]'')) = (False, 0)"
  by code_simp

section \<open>Scores and saved attempts\<close>

lemma sum_list_single:
  "sum_list (map (\<lambda>i. if i = k then h i else (0::int)) [0..<n]) = (if k < n then h k else 0)"
  by (induction n) auto

lemma correct_sum_questions:
  "questions s' = questions s \<Longrightarrow> correct_sum s' p = correct_sum s p"
  by (simp add: correct_sum_def cong: if_cong)

lemma correct_sum_new [simp]: "correct_sum s (new_participant uid n) = 0"
  by (simp add: correct_sum_def new_participant_def)

lemma correct_sum_append:
  assumes na: "\<not> has_answered idx p" and r: "0 \<le> idx" "idx < int (length (questions s))"
    and a: "answers p' = answers p @ [rc]" and ri: "questionIndex rc = idx"
  shows "correct_sum s p' = correct_sum s p + (if correct rc then marks (questions s ! nat idx) else 0)"
proof -
  define c where "c = correct rc"
  let ?f = "\<lambda>i. if list_ex (\<lambda>a. questionIndex a = int i \<and> correct a) (answers p)
                  then marks (questions s ! i) else 0"
  let ?g = "\<lambda>i. if i = nat idx then (if c then marks (questions s ! i) else 0) else 0"
  have no: "\<not> list_ex (\<lambda>a. questionIndex a = idx \<and> correct a) (answers p)"
    using na by (auto simp: has_answered_def list_ex_iff)
  have "\<And>i. (if list_ex (\<lambda>a. questionIndex a = int i \<and> correct a) (answers p')
              then marks (questions s ! i) else 0) = ?f i + ?g i"
  proof -
    fix i
    show "(if list_ex (\<lambda>a. questionIndex a = int i \<and> correct a) (answers p')
              then marks (questions s ! i) else 0) = ?f i + ?g i"
    proof (cases "int i = idx")
      case True
      then have "i = nat idx" by simp
      with True no show ?thesis by (simp add: a ri c_def)
    next
      case False
      then have "i \<noteq> nat idx" using r by auto
      with False show ?thesis by (simp add: a ri)
    qed
  qed
  then have "correct_sum s p' = sum_list (map (\<lambda>i. ?f i + ?g i) [0..<length (questions s)])"
    by (simp add: correct_sum_def)
  also have "\<dots> = sum_list (map ?f [0..<length (questions s)]) + sum_list (map ?g [0..<length (questions s)])"
    by (rule sum_list_addf)
  also have "sum_list (map ?g [0..<length (questions s)]) = (if c then marks (questions s ! nat idx) else 0)"
  proof -
    from r have "nat idx < length (questions s)" by linarith
    then show ?thesis by (simp add: sum_list_single)
  qed
  finally show ?thesis by (simp add: correct_sum_def c_def)
qed

lemma correct_sum_broadcast [simp]: "correct_sum (broadcastSSE s e) p = correct_sum s p"
  by (rule correct_sum_questions) simp

lemma correct_sum_upd [simp]:
  "correct_sum (s\<lparr>sseClients := x1\<rparr>) p = correct_sum s p"
  "correct_sum (s\<lparr>status := x2\<rparr>) p = correct_sum s p"
  "correct_sum (s\<lparr>currentQuestionIndex := x3\<rparr>) p = correct_sum s p"
  "correct_sum (s\<lparr>questionStartedAt := x4\<rparr>) p = correct_sum s p"
  "correct_sum (s\<lparr>participants := x5\<rparr>) p = correct_sum s p"
  by (simp_all add: correct_sum_def cong: if_cong)

lemma session_inv_broadcast [simp]: "session_inv (broadcastSSE s e) = session_inv s"
  by (simp add: session_inv_def)

lemma session_inv_clients [simp]: "session_inv (s\<lparr>sseClients := x\<rparr>) = session_inv s"
  by (simp add: session_inv_def)

lemma session_inv_answered:
  assumes inv: "session_inv s" and p: "map_get (participants s) uid = Some p"
    and na: "\<not> has_answered (currentQuestionIndex s) p"
    and q: "nth_opt (questions s) (currentQuestionIndex s) = Some q"
  shows "session_inv (answered_session s uid p q ans now)"
proof -
  let ?idx = "currentQuestionIndex s"
  let ?p2 = "p\<lparr>score := score p + live_marksAwarded q ans,
               answers := answers p @
                 [\<lparr>questionIndex = ?idx,
                   answer = (case ans of None \<Rightarrow> [] | Some a \<Rightarrow> a),
                   correct = live_isCorrect q ans,
                   time = of_int (now - questionStartedAt s) / 1000\<rparr>]\<rparr>"
  from nth_opt_Some [OF q] have r: "0 \<le> ?idx" "?idx < int (length (questions s))"
    and qq: "q = questions s ! nat ?idx" by auto
  from inv have all: "list_all (\<lambda>(uid, p). score p = correct_sum s p) (participants s)"
    by (simp add: session_inv_def)
  from map_get_mem [OF p] all have sp: "score p = correct_sum s p"
    by (auto simp: list_all_iff)
  let ?rc = "\<lparr>questionIndex = ?idx,
                   answer = (case ans of None \<Rightarrow> [] | Some a \<Rightarrow> a),
                   correct = live_isCorrect q ans,
                   time = of_int (now - questionStartedAt s) / 1000\<rparr>"
  have "correct_sum s ?p2 = correct_sum s p + (if correct ?rc then marks (questions s ! nat ?idx) else 0)"
    by (rule correct_sum_append [OF na r, where rc = ?rc]) simp_all
  then have "score ?p2 = correct_sum s ?p2"
    using sp qq by (simp add: live_marksAwarded_def)
  with all have "list_all (\<lambda>(uid, p). score p = correct_sum s p) (map_set (participants s) uid ?p2)"
    by (intro list_all_map_set) simp_all
  moreover have "participants (answered_session s uid p q ans now) = map_set (participants s) uid ?p2"
    by (simp add: answered_session_def Let_def)
  moreover have "\<And>p'. correct_sum (answered_session s uid p q ans now) p' = correct_sum s p'"
    by (rule correct_sum_questions) simp
  ultimately show ?thesis using inv by (simp add: session_inv_def)
qed

lemma session_inv_joined:
  assumes inv: "session_inv s"
  shows "session_inv (joined_session s uid n)"
proof -
  have c: "\<And>p'. correct_sum (joined_session s uid n) p' = correct_sum s p'"
    by (rule correct_sum_questions) simp
  from inv have "list_all (\<lambda>(uid, p). score p = correct_sum s p) (participants s)"
    by (simp add: session_inv_def)
  then have "list_all (\<lambda>(uid, p). score p = correct_sum s p)
               (map_set (participants s) uid (new_participant uid n))"
    by (rule list_all_map_set) (simp add: new_participant_def correct_sum_def)
  then show ?thesis using inv by (simp add: session_inv_def c)
qed

lemma session_inv_ended: "session_inv s \<Longrightarrow> session_inv (ended_session s)"
  by (simp add: ended_session_def Let_def session_inv_def)

lemma session_inv_end: "session_inv s \<Longrightarrow> session_inv (s\<lparr>status := Ended\<rparr>)"
  by (simp add: session_inv_def)

lemma session_inv_asked:
  "session_inv s \<Longrightarrow> currentQuestionIndex s + 1 < int (length (questions s)) \<Longrightarrow>
     session_inv (asked_session s q now)"
  by (simp add: asked_session_def Let_def session_inv_def)

lemma world_inv_update:
  "world_inv w \<Longrightarrow> session_inv s' \<Longrightarrow> world_inv (w\<lparr>liveSessions := (liveSessions w)(code \<mapsto> s')\<rparr>)"
  by (simp add: world_inv_def)

lemma world_inv_cong: "liveSessions w' = liveSessions w \<Longrightarrow> world_inv w' = world_inv w"
  by (simp add: world_inv_def)

lemma world_inv_session: "world_inv w \<Longrightarrow> liveSessions w code = Some s \<Longrightarrow> session_inv s"
  by (simp add: world_inv_def)

lemma world_inv_init: "world_inv init_world"
  by (simp add: world_inv_def init_world_def)

lemma world_inv_next:
  assumes inv: "world_inv w"
  shows "world_inv (snd (live_next code user now w))"
proof -
  obtain r w' where rw: "live_next code user now w = (r, w')" by (cases "live_next code user now w")
  from live_next_cases [OF rw] show ?thesis
  proof (elim disjE exE conjE)
    fix e assume "w' = w"
    with inv rw show ?thesis by simp
  next
    fix u s
    assume s: "liveSessions w code = Some s"
      and w': "w' = save_attempts (ended_session s) now (participants s)
                (w\<lparr>liveSessions := (liveSessions w)(code \<mapsto> ended_session s)\<rparr>)"
    from world_inv_session [OF inv s] have "session_inv (ended_session s)"
      by (rule session_inv_ended)
    with inv have "world_inv (w\<lparr>liveSessions := (liveSessions w)(code \<mapsto> ended_session s)\<rparr>)"
      by (rule world_inv_update)
    then have "world_inv w'" unfolding w' by (subst world_inv_cong [OF save_attempts_liveSessions])
    with rw show ?thesis by simp
  next
    fix u s q
    assume s: "liveSessions w code = Some s"
      and lt: "currentQuestionIndex s + 1 < int (length (questions s))"
      and w': "w' = w\<lparr>liveSessions := (liveSessions w)(code \<mapsto> asked_session s q now)\<rparr>"
    from world_inv_session [OF inv s] lt have "session_inv (asked_session s q now)"
      by (rule session_inv_asked)
    with inv have "world_inv w'" unfolding w' by (rule world_inv_update)
    with rw show ?thesis by simp
  next
    fix u s
    assume s: "liveSessions w code = Some s"
      and lt: "currentQuestionIndex s + 1 < int (length (questions s))"
      and n: "nth_opt (questions s) (currentQuestionIndex s + 1) = None"
    from world_inv_session [OF inv s] have "- 1 \<le> currentQuestionIndex s"
      by (simp add: session_inv_def)
    with lt n have False by (simp add: nth_opt_def)
    then show ?thesis ..
  qed
qed

lemma world_inv_answer:
  assumes inv: "world_inv w"
  shows "world_inv (snd (live_answer code user ans now w))"
proof -
  obtain r w' where rw: "live_answer code user ans now w = (r, w')"
    by (cases "live_answer code user ans now w")
  from live_answer_cases [OF rw] show ?thesis
  proof (elim disjE exE conjE)
    fix e assume "w' = w"
    with inv rw show ?thesis by simp
  next
    fix u s p q
    assume s: "liveSessions w code = Some s"
      and p: "map_get (participants s) (jwt_userId u) = Some p"
      and na: "\<not> has_answered (currentQuestionIndex s) p"
      and q: "nth_opt (questions s) (currentQuestionIndex s) = Some q"
      and w': "w' = w\<lparr>liveSessions := (liveSessions w)
                  (code \<mapsto> answered_session s (jwt_userId u) p q ans now)\<rparr>"
    from world_inv_session [OF inv s] p na q
    have "session_inv (answered_session s (jwt_userId u) p q ans now)"
      by (rule session_inv_answered)
    with inv have "world_inv w'" unfolding w' by (rule world_inv_update)
    with rw show ?thesis by simp
  qed
qed

lemma world_inv_join:
  assumes inv: "world_inv w"
  shows "world_inv (snd (live_join code user n w))"
proof (cases user)
  case None
  with inv show ?thesis by (simp add: live_join_def)
next
  case u: (Some u)
  show ?thesis
  proof (cases "liveSessions w code")
    case None
    with inv u show ?thesis by (simp add: live_join_def)
  next
    case s: (Some s)
    show ?thesis
    proof (cases "status s = Ended")
      case True
      with inv u s show ?thesis by (simp add: live_join_def)
    next
      case st: False
      show ?thesis
      proof (cases "map_has (participants s) (jwt_userId u)")
        case True
        with inv u s st show ?thesis by (simp add: live_join_registered)
      next
        case False
        from world_inv_session [OF inv s] have "session_inv (joined_session s (jwt_userId u) n)"
          by (rule session_inv_joined)
        with inv have "world_inv (w\<lparr>liveSessions := (liveSessions w)
            (code \<mapsto> joined_session s (jwt_userId u) n)\<rparr>)"
          by (rule world_inv_update)
        with u s st False show ?thesis by (simp add: live_join_new)
      qed
    qed
  qed
qed

lemma world_inv_end: "world_inv w \<Longrightarrow> world_inv (snd (live_end code user w))"
  by (auto simp: live_end_def Let_def world_inv_def session_inv_def split: option.splits)

lemma world_inv_stream: "world_inv w \<Longrightarrow> world_inv (snd (live_stream code user cid brk w))"
  by (auto simp: live_stream_def Let_def world_inv_def split: option.splits)

lemma world_inv_close: "world_inv w \<Longrightarrow> world_inv (stream_close code cid w)"
  by (auto simp: stream_close_def world_inv_def split: option.splits)

lemma world_inv_timer: "world_inv w \<Longrightarrow> world_inv (timer_fires code w)"
  by (auto simp: timer_fires_def world_inv_def)

lemma world_inv_start:
  "world_inv w \<Longrightarrow> start_live quiz_id user quiz_row qs draws w = Some (r, w') \<Longrightarrow> world_inv w'"
  by (auto simp: start_live_def Let_def world_inv_def session_inv_def
      split: option.splits if_splits)

lemma world_inv_step: "world_inv w \<Longrightarrow> world_inv (step x w)"
proof (cases x)
  case (Start_live quiz_id user quiz_row qs draws)
  assume "world_inv w"
  then show ?thesis
    using world_inv_start [of w quiz_id user quiz_row qs draws]
    by (auto simp: Start_live split: option.splits)
qed (simp_all add: world_inv_next world_inv_answer world_inv_join world_inv_end
    world_inv_stream world_inv_close world_inv_timer)

lemma world_inv_run: "world_inv w \<Longrightarrow> world_inv (run ops w)"
  unfolding run_def by (induction ops arbitrary: w) (simp_all add: world_inv_step)

lemma attempt_scores:
  "map (\<lambda>r. (a_student_id r, a_score r))
     (map (\<lambda>(i, uid, p). attempt_row s now (n + i) uid p) (enumerate 0 ps)) =
   map (\<lambda>(uid, p). (uid, score p)) ps"
proof -
  have "map (\<lambda>r. (a_student_id r, a_score r))
          (map (\<lambda>(i, uid, p). attempt_row s now (n + i) uid p) (enumerate 0 ps)) =
        map ((\<lambda>(uid, p). (uid, score p)) \<circ> snd) (enumerate 0 ps)"
    by (simp add: attempt_row_def Let_def split_def comp_def)
  also have "\<dots> = map (\<lambda>(uid, p). (uid, score p)) (map snd (enumerate 0 ps))"
    by (simp only: map_map)
  finally show ?thesis by (simp only: map_snd_enumerate)
qed

lemma run_score:
  assumes s: "liveSessions (run ops init_world) code = Some s"
    and p: "(uid, p) \<in> set (participants s)"
  shows "score p = correct_sum s p"
proof -
  have "world_inv (run ops init_world)" by (rule world_inv_run [OF world_inv_init])
  from world_inv_session [OF this s] p show ?thesis
    by (auto simp: session_inv_def list_all_iff)
qed

lemma run_attempt_scores:
  assumes s: "liveSessions (run ops init_world) code = Some s"
    and n: "live_next code user now (run ops init_world) = (Ended_reply lb, w')"
  shows "map (\<lambda>r. (a_student_id r, a_score r)) (drop (length (quizAttempts (run ops init_world))) (quizAttempts w')) =
         map (\<lambda>(uid, p). (uid, correct_sum s p)) (participants s)"
proof -
  let ?w = "run ops init_world"
  let ?rows = "map (\<lambda>(i, uid, p). attempt_row s now (next_id ?w + i) uid p)
                 (enumerate 0 (participants s))"
  have "quizAttempts w' = quizAttempts ?w @ ?rows"
    by (rule next_saves_attempts(1) [OF n s])
  then have "drop (length (quizAttempts ?w)) (quizAttempts w') = ?rows" by simp
  then have "map (\<lambda>r. (a_student_id r, a_score r)) (drop (length (quizAttempts ?w)) (quizAttempts w')) =
        map (\<lambda>(uid, p). (uid, score p)) (participants s)"
    by (simp only: attempt_scores)
  also have "\<dots> = map (\<lambda>(uid, p). (uid, correct_sum s p)) (participants s)"
    using run_score [OF s] by (auto simp: split_def)
  finally show ?thesis .
qed

lemma answer_adds_marks:
  assumes s: "liveSessions w code = Some s"
    and a: "live_answer code user ans now w = (Answered c sc, w')"
  shows "\<exists>u p q s' p' rc. user = Some u \<and> map_get (participants s) (jwt_userId u) = Some p \<and>
           nth_opt (questions s) (currentQuestionIndex s) = Some q \<and>
           liveSessions w' code = Some s' \<and> map_get (participants s') (jwt_userId u) = Some p' \<and>
           score p' = score p + (if c then marks q else 0) \<and> sc = score p' \<and>
           answers p' = answers p @ [rc] \<and> correct rc = c \<and>
           questionIndex rc = currentQuestionIndex s"
proof -
  from live_answer_cases [OF a] s obtain u p q where
    u: "user = Some u"
    and p: "map_get (participants s) (jwt_userId u) = Some p"
    and q: "nth_opt (questions s) (currentQuestionIndex s) = Some q"
    and c: "c = live_isCorrect q ans" and sc: "sc = score p + live_marksAwarded q ans"
    and w': "w' = w\<lparr>liveSessions := (liveSessions w)
                  (code \<mapsto> answered_session s (jwt_userId u) p q ans now)\<rparr>"
    by auto
  let ?rc = "\<lparr>questionIndex = currentQuestionIndex s,
              answer = (case ans of None \<Rightarrow> [] | Some a \<Rightarrow> a),
              correct = live_isCorrect q ans,
              time = of_int (now - questionStartedAt s) / 1000\<rparr>"
  let ?p' = "p\<lparr>score := score p + live_marksAwarded q ans, answers := answers p @ [?rc]\<rparr>"
  have "map_get (participants (answered_session s (jwt_userId u) p q ans now)) (jwt_userId u) = Some ?p'"
    by (simp add: answered_session_def Let_def)
  with u p q c sc w' show ?thesis
    by (intro exI [of _ u] exI [of _ p] exI [of _ q]
        exI [of _ "answered_session s (jwt_userId u) p q ans now"] exI [of _ ?p'] exI [of _ ?rc])
      (simp add: live_marksAwarded_def)
qed

text \<open>
  C10. In every state the server reaches from its start by a run of requests, the
  running score of each participant of each live session is the sum of the marks
  of the questions for which the participant holds an answer record marked
  correct. The operations keep it so: \<open>join\<close> registers a new participant with
  score 0 and no record; an accepted answer appends one record and adds the marks
  of the active question exactly when that record is marked correct; and when
  \<open>next\<close> ends the quiz, the attempts it saves, one per participant in join order,
  carry that sum as their score.
\<close>

theorem score_is_sum_of_correct_marks:
  assumes "liveSessions (run ops init_world) code = Some s"
  shows "((uid, p) \<in> set (participants s) \<longrightarrow> score p = correct_sum s p)
   \<and> (status s \<noteq> Ended \<and> \<not> map_has (participants s) (jwt_userId u) \<longrightarrow>
        (\<exists>s' p'. liveSessions (snd (live_join code (Some u) n (run ops init_world))) code = Some s' \<and>
           map_get (participants s') (jwt_userId u) = Some p' \<and> score p' = 0 \<and> answers p' = []))
   \<and> (live_answer code user ans t1 (run ops init_world) = (Answered c sc, w1) \<longrightarrow>
        (\<exists>v p0 q s' p' rc. user = Some v \<and> map_get (participants s) (jwt_userId v) = Some p0 \<and>
           nth_opt (questions s) (currentQuestionIndex s) = Some q \<and>
           liveSessions w1 code = Some s' \<and> map_get (participants s') (jwt_userId v) = Some p' \<and>
           score p' = score p0 + (if c then marks q else 0) \<and> sc = score p' \<and>
           answers p' = answers p0 @ [rc] \<and> correct rc = c \<and>
           questionIndex rc = currentQuestionIndex s))
   \<and> (live_next code host t2 (run ops init_world) = (Ended_reply lb, w2) \<longrightarrow>
        map (\<lambda>r. (a_student_id r, a_score r))
          (drop (length (quizAttempts (run ops init_world))) (quizAttempts w2)) =
        map (\<lambda>(uid, p). (uid, correct_sum s p)) (participants s))"
proof (intro conjI impI)
  assume "(uid, p) \<in> set (participants s)"
  with assms show "score p = correct_sum s p" by (rule run_score)
next
  assume "status s \<noteq> Ended \<and> \<not> map_has (participants s) (jwt_userId u)"
  with assms have "live_join code (Some u) n (run ops init_world) =
       (Joined (status s) (map_size (participants s) + 1) (length (questions s)),
        (run ops init_world)\<lparr>liveSessions := (liveSessions (run ops init_world))
           (code \<mapsto> joined_session s (jwt_userId u) n)\<rparr>)"
    by (simp add: live_join_new)
  then show "\<exists>s' p'. liveSessions (snd (live_join code (Some u) n (run ops init_world))) code = Some s' \<and>
           map_get (participants s') (jwt_userId u) = Some p' \<and> score p' = 0 \<and> answers p' = []"
    by (simp add: new_participant_def)
next
  assume "live_answer code user ans t1 (run ops init_world) = (Answered c sc, w1)"
  with assms show "\<exists>v p0 q s' p' rc. user = Some v \<and> map_get (participants s) (jwt_userId v) = Some p0 \<and>
           nth_opt (questions s) (currentQuestionIndex s) = Some q \<and>
           liveSessions w1 code = Some s' \<and> map_get (participants s') (jwt_userId v) = Some p' \<and>
           score p' = score p0 + (if c then marks q else 0) \<and> sc = score p' \<and>
           answers p' = answers p0 @ [rc] \<and> correct rc = c \<and>
           questionIndex rc = currentQuestionIndex s"
    by (rule answer_adds_marks)
next
  assume "live_next code host t2 (run ops init_world) = (Ended_reply lb, w2)"
  with assms show "map (\<lambda>r. (a_student_id r, a_score r))
          (drop (length (quizAttempts (run ops init_world))) (quizAttempts w2)) =
        map (\<lambda>(uid, p). (uid, correct_sum s p)) (participants s)"
    by (rule run_attempt_scores)
qed

theorem score_is_sum_of_correct_marks_witness:
  "liveSessions ex_answered ex_code = Some (the (liveSessions ex_answered ex_code))
   \<and> (''s1'', snd (hd (participants (the (liveSessions ex_answered ex_code)))))
       \<in> set (participants (the (liveSessions ex_answered ex_code)))
   \<and> score (snd (hd (participants (the (liveSessions ex_answered ex_code))))) = 1
   \<and> correct_sum (the (liveSessions ex_answered ex_code))
        (snd (hd (participants (the (liveSessions ex_answered ex_code))))) = 1"
proof -
  let ?S = "the (liveSessions ex_answered ex_code)"
  let ?P = "snd (hd (participants ?S))"
  have h: "liveSessions ex_answered ex_code = Some ?S" by code_simp
  have m: "(''s1'', ?P) \<in> set (participants ?S)" by code_simp
  have v: "score ?P = 1" by code_simp
  from score_is_sum_of_correct_marks [OF h [unfolded ex_answered_def], of "''s1''" ?P] m
  have "score ?P = correct_sum ?S ?P" by (simp add: ex_answered_def)
  with h m v show ?thesis by simp
qed

section \<open>The host routes: what next and end check\<close>

text \<open>
  \<open>next\<close> refuses a caller who is not the host and leaves the state alone. It does
  not look at the status: for the host it always moves the index on, whatever the
  session's status was. \<open>end\<close> looks at neither the caller's identity nor the
  status, and writes to no table. The event that \<open>next\<close> sends for a question does
  not depend on the question's \<open>correct_answer\<close> field, but carries its options as
  they are.
\<close>

lemma next_requires_host:
  "liveSessions w code = Some s \<Longrightarrow> teacherId s \<noteq> jwt_userId u \<Longrightarrow>
     live_next code (Some u) now w = (Error Insufficient_permissions, w) \<or>
     live_next code (Some u) now w = (Error Not_the_session_host, w)"
  by (simp add: live_next_def)

lemma next_ignores_status:
  assumes s: "liveSessions w code = Some s" and role: "roleMiddleware [''teacher'', ''admin''] u"
    and host: "teacherId s = jwt_userId u"
  shows "\<exists>s'. liveSessions (snd (live_next code (Some u) now w)) code = Some s' \<and>
           currentQuestionIndex s' = currentQuestionIndex s + 1 \<and>
           status s' = (if int (length (questions s)) \<le> currentQuestionIndex s + 1
                        then Ended else Question)"
proof (cases "int (length (questions s)) \<le> currentQuestionIndex s + 1")
  case True
  with live_next_ends [OF s role host True, of now] show ?thesis
    by (simp add: ended_session_def Let_def)
next
  case False
  then have lt: "currentQuestionIndex s + 1 < int (length (questions s))" by simp
  show ?thesis
  proof (cases "nth_opt (questions s) (currentQuestionIndex s + 1)")
    case None
    with live_next_throws [OF s role host lt None, of now] False show ?thesis by simp
  next
    case (Some q)
    with live_next_asks [OF s role host lt Some, of now] False show ?thesis
      by (simp add: asked_session_def Let_def)
  qed
qed

lemma end_ignores_caller:
  assumes "liveSessions w code = Some s" "roleMiddleware [''teacher'', ''admin''] u"
  shows "fst (live_end code (Some u) w) = Ended_reply (leaderboard s)"
    and "\<exists>s'. liveSessions (snd (live_end code (Some u) w)) code = Some s' \<and> status s' = Ended"
    and "quizAttempts (snd (live_end code (Some u) w)) = quizAttempts w"
    and "studentAnswers (snd (live_end code (Some u) w)) = studentAnswers w"
  by (simp_all add: live_end_accepts [OF assms])

lemma question_event_without_correct_answer:
  "asked_session s (q\<lparr>correct_answer := x\<rparr>) now = asked_session s q now"
  by (simp add: asked_session_def)

lemma question_event_options:
  "sseClients (asked_session s q now) =
     map (\<lambda>c. c\<lparr>received := received c @
        [Question_event
           \<lparr>p_index = currentQuestionIndex s + 1, p_total = length (questions s),
             p_question_text = question_text q, p_question_type = question_type q,
             p_options = options q, p_marks = marks q, p_difficulty = difficulty q,
             p_time_limit = Math_round (questionTimeLimit s)\<rparr>]\<rparr>)
       (filter (\<lambda>c. \<not> broken c) (sseClients s))"
  by (simp add: asked_session_def Let_def broadcastSSE_def)

text \<open>
  C1. Calling \<open>next\<close> on a session that has already ended should be refused and
  change nothing. The route has no such check: in the example session, which the
  third \<open>next\<close> ended (index 2, one attempt saved), a fourth \<open>next\<close> by the host is
  answered with the leaderboard again, moves the index to 3, sends the clients a
  second \<open>quiz_ended\<close> event and saves a second attempt, with its answers, for the
  same student.
\<close>

theorem next_on_ended_session_finalizes_again:
  "map_option status (liveSessions (run ex_session init_world) ex_code) = Some Ended
   \<and> map_option currentQuestionIndex (liveSessions (run ex_session init_world) ex_code) = Some 2
   \<and> map a_student_id (quizAttempts (run ex_session init_world)) = [''s1'']
   \<and> length (studentAnswers (run ex_session init_world)) = 2
   \<and> fst (live_next ex_code ex_host 9500 (run ex_session init_world)) =
        Ended_reply [\<lparr>rank = 1, lb_name = ''Ann'', lb_score = 1\<rparr>]
   \<and> map_option currentQuestionIndex
        (liveSessions (snd (live_next ex_code ex_host 9500 (run ex_session init_world))) ex_code) = Some 3
   \<and> map a_student_id
        (quizAttempts (snd (live_next ex_code ex_host 9500 (run ex_session init_world)))) = [''s1'', ''s1'']
   \<and> length (studentAnswers (snd (live_next ex_code ex_host 9500 (run ex_session init_world)))) = 4
   \<and> map (drop 6)
        (client_logs (snd (live_next ex_code ex_host 9500 (run ex_session init_world))) ex_code) =
        [[Quiz_ended [\<lparr>rank = 1, lb_name = ''Ann'', lb_score = 1\<rparr>],
          Quiz_ended [\<lparr>rank = 1, lb_name = ''Ann'', lb_score = 1\<rparr>]]]"
  by code_simp

text \<open>
  C2. The status should never move back from \<open>ended\<close>. When the host ends the
  session before the last question and then calls \<open>next\<close>, the status goes from
  \<open>ended\<close> back to \<open>question\<close>, and the session accepts answers again.
\<close>

theorem next_after_end_reopens_session:
  "map_option status (liveSessions (run ex_setup init_world) ex_code) = Some Waiting
   \<and> map_option status (liveSessions (run (ex_setup @ [End ex_code ex_host]) init_world) ex_code) =
        Some Ended
   \<and> map_option status
        (liveSessions (run (ex_setup @ [End ex_code ex_host, Next ex_code ex_host 1000]) init_world)
           ex_code) = Some Question
   \<and> fst (live_answer ex_code ex_student (Some ''b'') 2000
        (run (ex_setup @ [End ex_code ex_host, Next ex_code ex_host 1000]) init_world)) =
        Answered True 1"
  by code_simp

text \<open>
  C4. A caller who is not the host should get \<open>Forbidden\<close> from \<open>next\<close> and from
  \<open>end\<close>, with the session unchanged. \<open>next\<close> compares the caller with
  \<open>teacherId\<close>; \<open>end\<close> does not: a second teacher, who is refused by \<open>next\<close>, ends
  the session of teacher \<open>t1\<close>.
\<close>

theorem end_by_another_teacher_ends_session:
  "map_option teacherId (liveSessions (run ex_setup init_world) ex_code) = Some ''t1''
   \<and> map_option jwt_userId ex_other_teacher = Some ''t2''
   \<and> map_option status (liveSessions (run ex_setup init_world) ex_code) = Some Waiting
   \<and> fst (live_next ex_code ex_other_teacher 1000 (run ex_setup init_world)) =
        Error Not_the_session_host
   \<and> fst (live_end ex_code ex_other_teacher (run ex_setup init_world)) =
        Ended_reply [\<lparr>rank = 1, lb_name = ''Ann'', lb_score = 0\<rparr>]
   \<and> map_option status
        (liveSessions (snd (live_end ex_code ex_other_teacher (run ex_setup init_world))) ex_code) =
        Some Ended"
  by code_simp

text \<open>
  C5. Every transition to \<open>ended\<close> should save one attempt per participant, with
  the answer rows. The \<open>ended\<close> branch of \<open>next\<close> does; \<open>end\<close> saves nothing: when
  the host ends the example session after the first question, the student's score
  of 1 and her answer are in no table.
\<close>

theorem end_saves_no_attempt:
  "map_option status (liveSessions (run ex_ended_early init_world) ex_code) = Some Ended
   \<and> scoreboard (run ex_ended_early init_world) ex_code = [(''s1'', 1, 1)]
   \<and> quizAttempts (run ex_ended_early init_world) = []
   \<and> studentAnswers (run ex_ended_early init_world) = []
   \<and> map (\<lambda>r. (a_student_id r, a_score r, a_total_marks r, a_percentage r, a_status r))
        (quizAttempts (run ex_session init_world)) = [(''s1'', 1, 2, 50, ''evaluated'')]"
  by code_simp

text \<open>
  C7. The \<open>question\<close> event should never carry the canonical answer. It has no
  \<open>correct_answer\<close> field, but it carries the question's \<open>options\<close> as stored, and
  the options of an ordering question hold \<open>correct_order\<close>: the event sent for
  the ordering question shows the order \<open>[0,1,2,3]\<close>, which is the canonical
  answer, and a student who sends it back is marked correct.
\<close>

theorem ordering_question_event_shows_answer:
  "map last (client_logs (run ex_ordering_setup init_world) ex_code) =
     [Question_event
        \<lparr>p_index = 0, p_total = 1, p_question_text = ''Order the steps'',
          p_question_type = ''ordering'',
          p_options = JObj [(''items'', JArr [JStr ''Step 1'', JStr ''Step 2'', JStr ''Step 3'', JStr ''Step 4'']),
                            (''correct_order'', JArr [JNum 0, JNum 1, JNum 2, JNum 3])],
          p_marks = 3, p_difficulty = ''hard'', p_time_limit = 1800\<rparr>]
   \<and> correct_answer ex_ordering = ''[0,1,2,3]''
   \<and> fst (live_answer ex_code ex_student (Some ''[0,1,2,3]'') 2000
        (run ex_ordering_setup init_world)) = Answered True 3"
  by code_simp

end
